theory Spec2Isabelle
  imports Complex_Main "HOL-Library.Word"
begin

section \<open>Values of the Python runtime\<close>

text \<open>
  A Python \<open>str\<close> is a sequence of Unicode code points, a \<open>bytes\<close> object a sequence
  of octets.  Code points are natural numbers; \<open>str ''...''\<close> writes an ASCII literal.
\<close>

type_synonym pystr = "nat list"
type_synonym byte = "8 word"
type_synonym bytes = "byte list"

definition ord :: "char \<Rightarrow> nat" where
  "ord c = of_char c"

definition str :: "string \<Rightarrow> pystr" where
  "str s = map ord s"

text \<open>The exceptions that the ticket factory raises or lets escape.\<close>

datatype error =
    TicketParseError pystr string  \<comment> \<open>the ticket and the reason\<close>
  | TicketDigestError pystr
  | TicketExpired pystr
  | UnicodeEncodeError             \<comment> \<open>raised by \<open>str.encode\<close> on a lone surrogate\<close>
  | StructError                    \<comment> \<open>\<open>struct.error\<close>, raised by \<open>pack\<close>\<close>
  | CodecError                     \<comment> \<open>the caller's \<open>encoding\<close> cannot be used\<close>

subsection \<open>Hexadecimal digits\<close>

definition hexdig_lower :: "nat \<Rightarrow> nat" where
  "hexdig_lower d = (if d < 10 then 48 + d else 87 + d)"

definition hexdig_upper :: "nat \<Rightarrow> nat" where
  "hexdig_upper d = (if d < 10 then 48 + d else 55 + d)"

text \<open>\<open>_PyLong_DigitValue\<close>: the value of a character as a digit, 37 for a non-digit.\<close>

definition digit_value :: "nat \<Rightarrow> nat" where
  "digit_value c =
     (if 48 \<le> c \<and> c \<le> 57 then c - 48
      else if 97 \<le> c \<and> c \<le> 122 then c - 87
      else if 65 \<le> c \<and> c \<le> 90 then c - 55
      else 37)"

definition is_hexdig :: "nat \<Rightarrow> bool" where
  "is_hexdig c = (digit_value c < 16)"

definition is_lower_hexdig :: "nat \<Rightarrow> bool" where
  "is_lower_hexdig c = ((48 \<le> c \<and> c \<le> 57) \<or> (97 \<le> c \<and> c \<le> 102))"

subsection \<open>UTF-8\<close>

text \<open>
  \<open>str.encode('utf-8')\<close> with the default \<open>errors='strict'\<close>: a surrogate code point
  cannot be encoded.  (A \<open>str\<close> holds no code point above \<open>0x10FFFF\<close>; the encoder is
  made total by rejecting those too.)
\<close>

definition utf8_encode_char :: "nat \<Rightarrow> bytes option" where
  "utf8_encode_char c =
     (if c < 0x80 then Some [of_nat c]
      else if c < 0x800 then Some [of_nat (0xC0 + c div 64), of_nat (0x80 + c mod 64)]
      else if c < 0x10000 then
        (if 0xD800 \<le> c \<and> c < 0xE000 then None
         else Some [of_nat (0xE0 + c div 4096), of_nat (0x80 + c div 64 mod 64),
                    of_nat (0x80 + c mod 64)])
      else if c < 0x110000 then
        Some [of_nat (0xF0 + c div 262144), of_nat (0x80 + c div 4096 mod 64),
              of_nat (0x80 + c div 64 mod 64), of_nat (0x80 + c mod 64)]
      else None)"

fun utf8_encode :: "pystr \<Rightarrow> bytes option" where
  "utf8_encode [] = Some []"
| "utf8_encode (c # cs) =
     (case utf8_encode_char c of
        None \<Rightarrow> None
      | Some b \<Rightarrow> (case utf8_encode cs of None \<Rightarrow> None | Some bs \<Rightarrow> Some (b @ bs)))"

text \<open>
  \<open>bytes.decode('utf-8', 'replace')\<close>, as CPython's decoder does it: \<open>utf8_first b bs\<close>
  reads the character that starts with byte \<open>b\<close> and returns it with the number of bytes
  of \<open>bs\<close> it used.  An ill-formed sequence yields \<open>U+FFFD\<close> for its longest well-formed
  prefix (one byte for an invalid start byte, everything that is left for a truncated
  sequence at the end of the input).
\<close>

definition is_cont :: "nat \<Rightarrow> bool" where
  "is_cont b = (0x80 \<le> b \<and> b < 0xC0)"

definition utf8_first :: "nat \<Rightarrow> nat list \<Rightarrow> nat \<times> nat" where
  "utf8_first ch bs =
     (if ch < 0x80 then (ch, 0)
      else if ch < 0xC2 then (0xFFFD, 0)
      else if ch < 0xE0 then
        (case bs of
           [] \<Rightarrow> (0xFFFD, 0)
         | b2 # _ \<Rightarrow>
             if \<not> is_cont b2 then (0xFFFD, 0)
             else ((ch - 0xC0) * 64 + (b2 - 0x80), 1))
      else if ch < 0xF0 then
        (case bs of
           [] \<Rightarrow> (0xFFFD, 0)
         | b2 # r2 \<Rightarrow>
             if \<not> is_cont b2 \<or> (ch = 0xE0 \<and> b2 < 0xA0) \<or> (ch = 0xED \<and> 0xA0 \<le> b2)
             then (0xFFFD, 0)
             else (case r2 of
                     [] \<Rightarrow> (0xFFFD, 1)
                   | b3 # _ \<Rightarrow>
                       if \<not> is_cont b3 then (0xFFFD, 1)
                       else ((ch - 0xE0) * 4096 + (b2 - 0x80) * 64 + (b3 - 0x80), 2)))
      else if ch < 0xF5 then
        (case bs of
           [] \<Rightarrow> (0xFFFD, 0)
         | b2 # r2 \<Rightarrow>
             if \<not> is_cont b2 \<or> (ch = 0xF0 \<and> b2 < 0x90) \<or> (ch = 0xF4 \<and> 0x90 \<le> b2)
             then (0xFFFD, 0)
             else (case r2 of
                     [] \<Rightarrow> (0xFFFD, 1)
                   | b3 # r3 \<Rightarrow>
                       if \<not> is_cont b3 then (0xFFFD, 1)
                       else (case r3 of
                               [] \<Rightarrow> (0xFFFD, 2)
                             | b4 # _ \<Rightarrow>
                                 if \<not> is_cont b4 then (0xFFFD, 2)
                                 else ((ch - 0xF0) * 262144 + (b2 - 0x80) * 4096
                                         + (b3 - 0x80) * 64 + (b4 - 0x80), 3))))
      else (0xFFFD, 0))"

fun utf8_decode_nat :: "nat list \<Rightarrow> pystr" where
  "utf8_decode_nat [] = []"
| "utf8_decode_nat (b # bs) =
     (let r = utf8_first b bs in fst r # utf8_decode_nat (drop (snd r) bs))"

definition utf8_decode :: "bytes \<Rightarrow> pystr" where
  "utf8_decode bs = utf8_decode_nat (map unat bs)"

subsection \<open>Percent-encoding: \<open>urllib.parse.quote\<close> and \<open>unquote\<close>\<close>

text \<open>
  \<open>quote(string)\<close> with its defaults \<open>safe='/'\<close>, \<open>encoding='utf-8'\<close>,
  \<open>errors='strict'\<close>: the string is encoded to UTF-8 and every byte outside
  \<open>A-Z a-z 0-9 _ . - ~ /\<close> becomes \<open>%XX\<close> with upper-case digits.
\<close>

definition always_safe :: "nat \<Rightarrow> bool" where
  "always_safe c =
     ((65 \<le> c \<and> c \<le> 90) \<or> (97 \<le> c \<and> c \<le> 122) \<or> (48 \<le> c \<and> c \<le> 57)
      \<or> c = ord CHR ''_'' \<or> c = ord CHR ''.'' \<or> c = ord CHR ''-'' \<or> c = ord CHR ''~'')"

definition quote_byte :: "byte \<Rightarrow> pystr" where
  "quote_byte b =
     (let n = unat b in
      if always_safe n \<or> n = ord CHR ''/'' then [n]
      else [ord CHR ''%'', hexdig_upper (n div 16), hexdig_upper (n mod 16)])"

definition quote_from_bytes :: "bytes \<Rightarrow> pystr" where
  "quote_from_bytes bs = concat (map quote_byte bs)"

definition quote :: "pystr \<Rightarrow> error + pystr" where
  "quote s =
     (case utf8_encode s of
        None \<Rightarrow> Inl UnicodeEncodeError
      | Some bs \<Rightarrow> Inr (quote_from_bytes bs))"

text \<open>
  \<open>unquote_to_bytes\<close> on ASCII text: the text is cut at every \<open>%\<close>; a piece that
  starts with two hexadecimal digits (either case) contributes that byte and its rest,
  any other piece is kept with its \<open>%\<close>.
\<close>

fun unquote_to_bytes :: "pystr \<Rightarrow> bytes" where
  "unquote_to_bytes [] = []"
| "unquote_to_bytes (c # cs) =
     (if c = ord CHR ''%'' then
        (case cs of
           h1 # h2 # rest \<Rightarrow>
             if is_hexdig h1 \<and> is_hexdig h2
             then of_nat (digit_value h1 * 16 + digit_value h2) # unquote_to_bytes rest
             else of_nat c # unquote_to_bytes cs
         | _ \<Rightarrow> of_nat c # unquote_to_bytes cs)
      else of_nat c # unquote_to_bytes cs)"

text \<open>
  \<open>unquote(string)\<close> with its defaults \<open>encoding='utf-8'\<close>, \<open>errors='replace'\<close>:
  a string without \<open>%\<close> is returned as it is; otherwise every maximal run of ASCII
  characters is unquoted to bytes and decoded, and the other characters are kept.
  \<open>unquote_parts run s\<close> walks \<open>s\<close> with the ASCII run read so far.
\<close>

definition unquote_run :: "pystr \<Rightarrow> pystr" where
  "unquote_run run = utf8_decode (unquote_to_bytes run)"

fun unquote_parts :: "pystr \<Rightarrow> pystr \<Rightarrow> pystr" where
  "unquote_parts run [] = unquote_run run"
| "unquote_parts run (c # cs) =
     (if c < 0x80 then unquote_parts (run @ [c]) cs
      else unquote_run run @ c # unquote_parts [] cs)"

definition unquote :: "pystr \<Rightarrow> pystr" where
  "unquote s = (if ord CHR ''%'' \<notin> set s then s else unquote_parts [] s)"

subsection \<open>\<open>str.split\<close> and \<open>str.join\<close>\<close>

fun split :: "nat \<Rightarrow> pystr \<Rightarrow> pystr list" where
  "split sep [] = [[]]"
| "split sep (c # cs) =
     (if c = sep then [] # split sep cs
      else (case split sep cs of
              p # ps \<Rightarrow> (c # p) # ps
            | [] \<Rightarrow> [[c]]))"

fun join :: "pystr \<Rightarrow> pystr list \<Rightarrow> pystr" where
  "join sep [] = []"
| "join sep [x] = x"
| "join sep (x # y # ys) = x @ sep @ join sep (y # ys)"

subsection \<open>Integers as text: \<open>int(s, 16)\<close> and \<open>'{:08x}'.format\<close>\<close>

text \<open>
  The interpreter supplies the clock and the Unicode database.  Of the latter, \<open>int\<close>
  needs two tables for the characters from \<open>U+007F\<close> on: which are white space and which
  are decimal digits (with their value).  Both depend on the Unicode version, so they are
  parameters.
\<close>

record runtime =
  rt_time :: real
  rt_isspace :: "nat \<Rightarrow> bool"
  rt_todecimal :: "nat \<Rightarrow> nat option"

text \<open>
  \<open>int(s, 16)\<close> on a \<open>str\<close> (CPython 3.6 and later).  A string with a non-ASCII
  character is first rewritten: white space becomes a blank, a decimal digit its ASCII
  digit, and the first other character from \<open>U+007F\<close> on becomes \<open>?\<close> and ends the
  string.  The result is read as: ASCII white space, an optional sign, an optional
  \<open>0x\<close> or \<open>0X\<close> (which one underscore may follow), digits with single underscores
  between them, ASCII white space.  Anything else raises \<open>ValueError\<close>, here \<open>None\<close>.
\<close>

fun transform_decimal_and_space :: "runtime \<Rightarrow> pystr \<Rightarrow> pystr" where
  "transform_decimal_and_space R [] = []"
| "transform_decimal_and_space R (c # cs) =
     (if c < 127 then c # transform_decimal_and_space R cs
      else if rt_isspace R c then ord CHR '' '' # transform_decimal_and_space R cs
      else (case rt_todecimal R c of
              None \<Rightarrow> [ord CHR ''?'']
            | Some d \<Rightarrow> (48 + d) # transform_decimal_and_space R cs))"

definition to_ascii :: "runtime \<Rightarrow> pystr \<Rightarrow> pystr" where
  "to_ascii R s = (if \<forall>c \<in> set s. c < 0x80 then s else transform_decimal_and_space R s)"

definition py_isspace :: "nat \<Rightarrow> bool" where
  "py_isspace c = (c = 32 \<or> (9 \<le> c \<and> c \<le> 13))"

text \<open>
  \<open>scan_digits prev acc s\<close> reads digits and underscores from \<open>s\<close>; \<open>prev\<close> is the
  character read last (0 at the start) and \<open>acc\<close> the digit values so far.  It returns the
  digit values and the unread rest, or \<open>None\<close> for a doubled or trailing underscore.
\<close>

fun scan_digits :: "nat \<Rightarrow> nat list \<Rightarrow> pystr \<Rightarrow> (nat list \<times> pystr) option" where
  "scan_digits prev acc [] = (if prev = ord CHR ''_'' then None else Some (acc, []))"
| "scan_digits prev acc (c # cs) =
     (if c = ord CHR ''_'' then
        (if prev = ord CHR ''_'' then None else scan_digits c acc cs)
      else if digit_value c < 16 then scan_digits c (acc @ [digit_value c]) cs
      else if prev = ord CHR ''_'' then None
      else Some (acc, c # cs))"

definition digits_value :: "nat list \<Rightarrow> nat" where
  "digits_value ds = foldl (\<lambda>a d. a * 16 + d) 0 ds"

definition strip_sign :: "pystr \<Rightarrow> bool \<times> pystr" where
  "strip_sign s =
     (case s of
        c # cs \<Rightarrow> if c = ord CHR ''+'' then (False, cs)
                  else if c = ord CHR ''-'' then (True, cs)
                  else (False, s)
      | [] \<Rightarrow> (False, s))"

definition strip_prefix16 :: "pystr \<Rightarrow> pystr" where
  "strip_prefix16 s =
     (case s of
        c0 # c1 # cs \<Rightarrow>
          if c0 = ord CHR ''0'' \<and> (c1 = ord CHR ''x'' \<or> c1 = ord CHR ''X'')
          then (case cs of
                  c2 # cs' \<Rightarrow> if c2 = ord CHR ''_'' then cs' else cs
                | [] \<Rightarrow> cs)
          else s
      | _ \<Rightarrow> s)"

definition int16 :: "runtime \<Rightarrow> pystr \<Rightarrow> int option" where
  "int16 R s =
     (let s1 = dropWhile py_isspace (to_ascii R s);
          (neg, s2) = strip_sign s1;
          s3 = strip_prefix16 s2
      in if s3 \<noteq> [] \<and> hd s3 = ord CHR ''_'' then None
         else (case scan_digits 0 [] s3 of
                 None \<Rightarrow> None
               | Some (ds, rest) \<Rightarrow>
                   if ds = [] then None
                   else if dropWhile py_isspace rest \<noteq> [] then None
                   else Some (if neg then - int (digits_value ds) else int (digits_value ds))))"

text \<open>
  \<open>'{:08x}'.format(v)\<close>: lower-case hexadecimal, the sign first, padded with zeros
  to at least eight characters.
\<close>

fun hex_nat :: "nat \<Rightarrow> pystr" where
  "hex_nat n =
     (if n < 16 then [hexdig_lower n] else hex_nat (n div 16) @ [hexdig_lower (n mod 16)])"

definition format_08x :: "int \<Rightarrow> pystr" where
  "format_08x v =
     (let sign = (if v < 0 then [ord CHR ''-''] else []);
          ds = hex_nat (nat \<bar>v\<bar>)
      in sign @ replicate (8 - length sign - length ds) (ord CHR ''0'') @ ds)"

text \<open>\<open>bytes.hex\<close>, as \<open>hexdigest\<close> returns it: two lower-case digits for each byte.\<close>

definition hex_byte :: "byte \<Rightarrow> pystr" where
  "hex_byte b = [hexdig_lower (unat b div 16), hexdig_lower (unat b mod 16)]"

definition hex_bytes :: "bytes \<Rightarrow> pystr" where
  "hex_bytes bs = concat (map hex_byte bs)"

subsection \<open>\<open>struct.pack\<close> and \<open>ipaddress\<close>\<close>

text \<open>\<open>big_endian k n\<close>: the \<open>k\<close> low-order bytes of \<open>n\<close>, the most significant first.\<close>

fun big_endian :: "nat \<Rightarrow> nat \<Rightarrow> bytes" where
  "big_endian 0 n = []"
| "big_endian (Suc k) n = of_nat (n div 256 ^ k) # big_endian k n"

text \<open>\<open>pack(">I", v)\<close> raises \<open>struct.error\<close> unless \<open>0 \<le> v < 2 ^ 32\<close>.\<close>

definition pack_I :: "int \<Rightarrow> error + bytes" where
  "pack_I v = (if 0 \<le> v \<and> v < 2 ^ 32 then Inr (big_endian 4 (nat v)) else Inl StructError)"

datatype ip_address = IPv4Address "32 word" | IPv6Address "128 word"

fun version :: "ip_address \<Rightarrow> nat" where
  "version (IPv4Address a) = 4"
| "version (IPv6Address a) = 6"

fun packed :: "ip_address \<Rightarrow> bytes" where
  "packed (IPv4Address a) = big_endian 4 (unat a)"
| "packed (IPv6Address a) = big_endian 16 (unat a)"

subsection \<open>\<open>hashlib\<close> objects\<close>

text \<open>
  A hash algorithm has a digest size and maps the bytes fed to it to a digest.  A hash
  object is mutable: it lives in a store, at an address, and holds the bytes it has been
  fed.  \<open>copy\<close> allocates a new object, \<open>update\<close> changes one in place.
\<close>

record hash_alg =
  digest_size :: nat
  hash_fun :: "bytes \<Rightarrow> bytes"

record hash_obj =
  alg :: hash_alg
  fed :: bytes

type_synonym addr = nat
type_synonym store = "hash_obj list"

definition hashlib_new :: "hash_alg \<Rightarrow> store \<Rightarrow> addr \<times> store" where
  "hashlib_new a h = (length h, h @ [\<lparr>alg = a, fed = []\<rparr>])"

definition hashobj_copy :: "addr \<Rightarrow> store \<Rightarrow> addr \<times> store" where
  "hashobj_copy p h = (length h, h @ [h ! p])"

definition hashobj_update :: "addr \<Rightarrow> bytes \<Rightarrow> store \<Rightarrow> store" where
  "hashobj_update p d h = h[p := (h ! p)\<lparr>fed := fed (h ! p) @ d\<rparr>]"

definition hashobj_digest :: "addr \<Rightarrow> store \<Rightarrow> bytes" where
  "hashobj_digest p h = hash_fun (alg (h ! p)) (fed (h ! p))"

definition hashobj_hexdigest :: "addr \<Rightarrow> store \<Rightarrow> pystr" where
  "hashobj_hexdigest p h = hex_bytes (hashobj_digest p h)"

definition hashobj_digest_size :: "addr \<Rightarrow> store \<Rightarrow> nat" where
  "hashobj_digest_size p h = digest_size (alg (h ! p))"

section \<open>The ticket factory\<close>

text \<open>Tuple type used to describe a ticket's parts.\<close>

record TicketInfo =
  digest :: pystr
  user_id :: pystr
  tokens :: "pystr list"
  user_data :: pystr
  valid_until :: int

text \<open>
  A factory holds its secret and a reference to the hash object that \<open>__init__\<close> made.
  No method assigns to either attribute, so a method takes the factory and the store and
  returns its result with the new store.
\<close>

record TicketFactory =
  secret :: bytes
  hash :: addr

definition DEFAULT_TIMEOUT :: int where
  "DEFAULT_TIMEOUT = 120"

definition DEFAULT_IP :: ip_address where
  "DEFAULT_IP = IPv4Address 0"

text \<open>
  \<open>__init__\<close> (lines 27 to 32 of \<open>ticket_factory.py\<close>): \<open>hashlib.new\<close> makes a fresh
  hash object, to which the factory keeps a reference.
\<close>

definition init :: "bytes \<Rightarrow> hash_alg \<Rightarrow> store \<Rightarrow> TicketFactory \<times> store" where
  "init s hashalg h =
     (let (p, h') = hashlib_new hashalg h in (\<lparr>secret = s, hash = p\<rparr>, h'))"

text \<open>
  \<open>_hexdigest\<close> (lines 120 to 126): each of the two hash objects is a copy of the
  factory's, updated once.
\<close>

definition hexdigest :: "TicketFactory \<Rightarrow> bytes \<Rightarrow> bytes \<Rightarrow> store \<Rightarrow> pystr \<times> store" where
  "hexdigest f data0 data1 h =
     (let (hash0, h) = hashobj_copy (hash f) h;
          h = hashobj_update hash0 (data0 @ secret f @ data1) h;
          (hash1, h) = hashobj_copy (hash f) h;
          h = hashobj_update hash1 (hashobj_digest hash0 h @ secret f) h
      in (hashobj_hexdigest hash1 h, h))"

text \<open>\<open>_min_ticket_size\<close> (lines 116 to 118): digest length plus time length.\<close>

definition min_ticket_size :: "TicketFactory \<Rightarrow> store \<Rightarrow> nat" where
  "min_ticket_size f h = hashobj_digest_size (hash f) h * 2 + 8"

text \<open>
  The \<open>encoding\<close> argument names a codec; it is modelled by the codec's encoder.
  \<open>utf_8\<close> is the default.
\<close>

type_synonym codec = "pystr \<Rightarrow> error + bytes"

definition utf_8 :: codec where
  "utf_8 s = (case utf8_encode s of None \<Rightarrow> Inl UnicodeEncodeError | Some b \<Rightarrow> Inr b)"

text \<open>The generator \<open>(ulp.quote(t) for t in tokens)\<close>, consumed by \<open>join\<close>.\<close>

fun quote_each :: "pystr list \<Rightarrow> error + pystr list" where
  "quote_each [] = Inr []"
| "quote_each (t # ts) =
     (case quote t of
        Inl e \<Rightarrow> Inl e
      | Inr q \<Rightarrow> (case quote_each ts of Inl e \<Rightarrow> Inl e | Inr qs \<Rightarrow> Inr (q # qs)))"

text \<open>\<open>int(time.time())\<close> truncates towards zero.\<close>

definition int_of_time :: "real \<Rightarrow> int" where
  "int_of_time t = (if 0 \<le> t then \<lfloor>t\<rfloor> else \<lceil>t\<rceil>)"

text \<open>
  \<open>new\<close> (lines 34 to 64).  \<open>tokens=None\<close> and \<open>user_data=None\<close> behave as the empty sequence and the
  empty string do (all are false), so the model takes a list and a string.  \<open>client_ip\<close>
  is an address object, which \<open>ip_address\<close> returns as it is.  A primed name is the
  Python variable of that name (the plain names are the fields of \<open>TicketInfo\<close>).
\<close>

definition new ::
  "runtime \<Rightarrow> TicketFactory \<Rightarrow> pystr \<Rightarrow> pystr list \<Rightarrow> pystr \<Rightarrow> int option
     \<Rightarrow> ip_address option \<Rightarrow> codec \<Rightarrow> store \<Rightarrow> (error + pystr) \<times> store" where
  "new R f user_id' tokens' user_data' valid_until' client_ip encoding h =
     (let until =
            (case valid_until' of
               None \<Rightarrow> int_of_time (rt_time R) + DEFAULT_TIMEOUT
             | Some v \<Rightarrow> v)
      in
      case quote user_id' of
        Inl e \<Rightarrow> (Inl e, h)
      | Inr quoted_id \<Rightarrow>
      case (if tokens' \<noteq> []
            then (case quote_each tokens' of
                    Inl e \<Rightarrow> Inl e
                  | Inr qs \<Rightarrow> Inr (join (str '','') qs))
            else Inr []) of
        Inl e \<Rightarrow> (Inl e, h)
      | Inr token_str \<Rightarrow>
      case (if user_data' = [] then Inr [] else quote user_data') of
        Inl e \<Rightarrow> (Inl e, h)
      | Inr user_str \<Rightarrow>
      let ip = (case client_ip of None \<Rightarrow> DEFAULT_IP | Some a \<Rightarrow> a) in
      case pack_I until of
        Inl e \<Rightarrow> (Inl e, h)
      | Inr packed_until \<Rightarrow>
      let data0 = [of_nat (version ip)] @ packed ip @ packed_until in
      case encoding (join [0] [quoted_id, token_str, user_str]) of
        Inl e \<Rightarrow> (Inl e, h)
      | Inr data1 \<Rightarrow>
      let (hexd, h1) = hexdigest f data0 data1 h;
          parts = [hexd @ format_08x until @ quoted_id, token_str, user_str]
      in (Inr (join (str ''!'') parts), h1))"

text \<open>
  \<open>parse\<close> (lines 87 to 114).  It reads the hash object's digest size and nothing else
  of the store, and it does not read the secret.  The bare \<open>except\<close> turns whatever
  \<open>int\<close> raises into \<open>TicketParseError\<close>.
\<close>

definition parse :: "runtime \<Rightarrow> TicketFactory \<Rightarrow> pystr \<Rightarrow> store \<Rightarrow> error + TicketInfo" where
  "parse R f ticket h =
     (if length ticket < min_ticket_size f h
      then Inl (TicketParseError ticket ''Invalid ticket length'')
      else
        let digest_len = hashobj_digest_size (hash f) h * 2;
            digest' = take digest_len ticket;
            time_len = 8
        in
        case int16 R (take time_len (drop digest_len ticket)) of
          None \<Rightarrow> Inl (TicketParseError ticket ''Invalid time field'')
        | Some time \<Rightarrow>
        let parts = split (ord CHR ''!'') (drop (digest_len + time_len) ticket) in
        if length parts \<noteq> 3 then Inl (TicketParseError ticket ''Missing parts'')
        else
          let user_id' = unquote (parts ! 0);
              tokens' = (if parts ! 1 \<noteq> []
                         then map unquote (split (ord CHR '','') (parts ! 1))
                         else []);
              user_data' = unquote (parts ! 2)
          in Inr \<lparr>digest = digest', user_id = user_id', tokens = tokens',
                   user_data = user_data', valid_until = time\<rparr>)"

text \<open>
  \<open>validate\<close> (lines 66 to 85).  \<open>now\<close> is a number of seconds, the clock's reading
  \<open>time.time()\<close> when it is not given; what \<open>new\<close> raises is not caught.
\<close>

definition validate ::
  "runtime \<Rightarrow> TicketFactory \<Rightarrow> pystr \<Rightarrow> ip_address option \<Rightarrow> real option \<Rightarrow> codec
     \<Rightarrow> store \<Rightarrow> (error + TicketInfo) \<times> store" where
  "validate R f ticket client_ip now encoding h =
     (case parse R f ticket h of
        Inl e \<Rightarrow> (Inl e, h)
      | Inr parts \<Rightarrow>
      case new R f (user_id parts) (tokens parts) (user_data parts)
                (Some (valid_until parts)) client_ip encoding h of
        (Inl e, h1) \<Rightarrow> (Inl e, h1)
      | (Inr new_ticket, h1) \<Rightarrow>
      if take (hashobj_digest_size (hash f) h1 * 2) new_ticket \<noteq> digest parts
      then (Inl (TicketDigestError ticket), h1)
      else
        let now' = (case now of None \<Rightarrow> rt_time R | Some t \<Rightarrow> t) in
        if real_of_int (valid_until parts) \<le> now' then (Inl (TicketExpired ticket), h1)
        else (Inr parts, h1))"

section \<open>Notions used to state the properties\<close>

text \<open>The characters that \<open>quote\<close> can produce.\<close>

definition quoted_char :: "nat \<Rightarrow> bool" where
  "quoted_char c = (always_safe c \<or> c = ord CHR ''/'' \<or> c = ord CHR ''%'')"

text \<open>
  A string is well formed when every code point is a Unicode scalar value: these are
  the strings that \<open>str.encode('utf-8')\<close> accepts.
\<close>

definition scalar_value :: "nat \<Rightarrow> bool" where
  "scalar_value c = (c < 0xD800 \<or> (0xE000 \<le> c \<and> c < 0x110000))"

definition well_formed :: "pystr \<Rightarrow> bool" where
  "well_formed s = (\<forall>c \<in> set s. scalar_value c)"

text \<open>
  What \<open>hashlib\<close> guarantees of an algorithm with a fixed digest size: every digest has
  that many bytes.
\<close>

definition hash_ok :: "hash_alg \<Rightarrow> bool" where
  "hash_ok a = (\<forall>x. length (hash_fun a x) = digest_size a)"

text \<open>
  A factory as \<open>__init__\<close> leaves it: its hash object is in the store, has been fed
  nothing, and belongs to such an algorithm.
\<close>

definition factory_ok :: "TicketFactory \<Rightarrow> store \<Rightarrow> bool" where
  "factory_ok f h = (hash f < length h \<and> fed (h ! hash f) = [] \<and> hash_ok (alg (h ! hash f)))"

definition factory_hash_fun :: "TicketFactory \<Rightarrow> store \<Rightarrow> bytes \<Rightarrow> bytes" where
  "factory_hash_fun f h = hash_fun (alg (h ! hash f))"

text \<open>The address that \<open>new\<close> binds the ticket to.\<close>

definition the_ip :: "ip_address option \<Rightarrow> ip_address" where
  "the_ip client_ip = (case client_ip of None \<Rightarrow> DEFAULT_IP | Some a \<Rightarrow> a)"

text \<open>
  The digest as the specification words it: \<open>hex(H(H(data0 || secret || data1) || secret))\<close>,
  with \<open>data0\<close> the version byte, the raw address and the expiry as four big-endian bytes.
\<close>

definition spec_mac :: "(bytes \<Rightarrow> bytes) \<Rightarrow> bytes \<Rightarrow> bytes \<Rightarrow> bytes \<Rightarrow> pystr" where
  "spec_mac H s data0 data1 = hex_bytes (H (H (data0 @ s @ data1) @ s))"

definition spec_data0 :: "ip_address \<Rightarrow> int \<Rightarrow> bytes" where
  "spec_data0 ip v =
     (case ip of
        IPv4Address a \<Rightarrow> 4 # big_endian 4 (unat a)
      | IPv6Address a \<Rightarrow> 6 # big_endian 16 (unat a))
     @ big_endian 4 (nat v)"

text \<open>The number that a sequence of bytes denotes, the most significant byte first.\<close>

definition from_big_endian :: "bytes \<Rightarrow> nat" where
  "from_big_endian bs = foldl (\<lambda>a b. a * 256 + unat b) 0 bs"

text \<open>
  The two hash objects that one digest computation allocates: each is a copy of the
  factory's object, fed afterwards.
\<close>

definition digest_objs :: "TicketFactory \<Rightarrow> store \<Rightarrow> bytes \<Rightarrow> bytes \<Rightarrow> hash_obj list" where
  "digest_objs f h data0 data1 =
     (let ob = h ! hash f; d = fed ob @ data0 @ secret f @ data1
      in [ob\<lparr>fed := d\<rparr>, ob\<lparr>fed := fed ob @ hash_fun (alg ob) d @ secret f\<rparr>])"

subsection \<open>A concrete factory\<close>

text \<open>
  For concrete runs: an algorithm with the digest size of SHA-512 whose digest repeats
  the sum of the input's bytes, a runtime, and the factory \<open>TicketFactory(b's3cret')\<close>
  in an empty store.
\<close>

definition example_alg :: hash_alg where
  "example_alg = \<lparr>digest_size = 64, hash_fun = (\<lambda>bs. replicate 64 (sum_list bs))\<rparr>"

definition example_runtime :: runtime where
  "example_runtime =
     \<lparr>rt_time = 1000000000, rt_isspace = (\<lambda>c. c = 0xA0), rt_todecimal = (\<lambda>c. None)\<rparr>"

definition example_factory :: TicketFactory where
  "example_factory = fst (init (map of_nat (str ''s3cret'')) example_alg [])"

definition example_store :: store where
  "example_store = snd (init (map of_nat (str ''s3cret'')) example_alg [])"

text \<open>
  The ticket that this factory issues for \<open>alice\<close> with no tokens, no user data, expiry
  \<open>1000000000\<close> and no client address, and its parts.
\<close>

definition example_ticket :: pystr where
  "example_ticket = concat (replicate 64 (str ''94'')) @ str ''3b9aca00alice!!''"

definition example_info :: TicketInfo where
  "example_info =
     \<lparr>digest = concat (replicate 64 (str ''94'')), user_id = str ''alice'', tokens = [],
      user_data = [], valid_until = 1000000000\<rparr>"

section \<open>Properties of the runtime model\<close>

subsection \<open>Characters, digits and bytes\<close>


lemma ord_simps:
  "ord CHR ''%'' = 37" "ord CHR ''!'' = 33" "ord CHR '','' = 44" "ord CHR ''_'' = 95"
  "ord CHR ''.'' = 46" "ord CHR ''-'' = 45" "ord CHR ''~'' = 126" "ord CHR ''/'' = 47"
  "ord CHR ''+'' = 43" "ord CHR ''x'' = 120" "ord CHR ''X'' = 88" "ord CHR ''?'' = 63"
  "ord CHR '' '' = 32" "ord CHR ''0'' = 48"
  by (simp_all add: ord_def)

lemma digit_value_hexdig_upper: "d < 16 \<Longrightarrow> digit_value (hexdig_upper d) = d"
  by (simp add: digit_value_def hexdig_upper_def)

lemma digit_value_hexdig_lower: "d < 16 \<Longrightarrow> digit_value (hexdig_lower d) = d"
  by (simp add: digit_value_def hexdig_lower_def)

lemma is_lower_hexdig_hexdig_lower: "d < 16 \<Longrightarrow> is_lower_hexdig (hexdig_lower d)"
  by (simp add: is_lower_hexdig_def hexdig_lower_def)

lemma is_lower_hexdig_is_hexdig: "is_lower_hexdig c \<Longrightarrow> is_hexdig c"
  by (auto simp: is_lower_hexdig_def is_hexdig_def digit_value_def)

lemma unat_byte_lt: "unat (b :: byte) < 256"
  using unsigned_less [of b] by simp

lemma unat_of_nat_byte: "n < 256 \<Longrightarrow> unat (of_nat n :: byte) = n"
  by (simp add: unat_of_nat)

lemma of_nat_unat_byte: "(of_nat (unat (b :: byte)) :: byte) = b"
  by simp

subsection \<open>Percent-encoding\<close>

text \<open>Unquoting to bytes undoes quoting from bytes, and quoting produces safe characters only.\<close>

lemma unquote_to_bytes_quote_byte:
  "unquote_to_bytes (quote_byte b @ xs) = b # unquote_to_bytes xs"
proof -
  let ?n = "unat b"
  have n: "?n < 256" by (rule unat_byte_lt)
  show ?thesis
  proof (cases "always_safe ?n \<or> ?n = ord CHR ''/''")
    case True
    then have "?n \<noteq> ord CHR ''%''"
      by (auto simp: always_safe_def ord_simps)
    with True show ?thesis
      by (simp add: quote_byte_def Let_def)
  next
    case False
    have d: "?n div 16 < 16" "?n mod 16 < 16" using n by simp_all
    have "(of_nat (?n div 16 * 16 + ?n mod 16) :: byte) = b"
      by simp
    with False d show ?thesis
      by (simp add: quote_byte_def Let_def is_hexdig_def digit_value_hexdig_upper)
  qed
qed

lemma unquote_to_bytes_quote_from_bytes:
  "unquote_to_bytes (quote_from_bytes bs) = bs"
  by (induction bs) (simp_all add: quote_from_bytes_def unquote_to_bytes_quote_byte)

lemma always_safe_hexdig_upper: "d < 16 \<Longrightarrow> always_safe (hexdig_upper d)"
  by (simp add: always_safe_def hexdig_upper_def)

lemma quote_byte_chars: "c \<in> set (quote_byte b) \<Longrightarrow> quoted_char c"
proof -
  assume c: "c \<in> set (quote_byte b)"
  have d: "unat b div 16 < 16" "unat b mod 16 < 16" using unat_byte_lt [of b] by simp_all
  from c show ?thesis
    by (auto simp: quote_byte_def Let_def quoted_char_def always_safe_hexdig_upper d
             split: if_splits)
qed

lemma quote_from_bytes_chars: "c \<in> set (quote_from_bytes bs) \<Longrightarrow> quoted_char c"
  by (auto simp: quote_from_bytes_def dest: quote_byte_chars)

lemma quoted_char_ascii: "quoted_char c \<Longrightarrow> c < 0x80"
  by (auto simp: quoted_char_def always_safe_def ord_simps)

lemma quoted_char_not_delim:
  "quoted_char c \<Longrightarrow> c \<noteq> ord CHR ''!'' \<and> c \<noteq> ord CHR '','' \<and> c \<noteq> 0"
  by (auto simp: quoted_char_def always_safe_def ord_simps)

subsection \<open>UTF-8: decoding what was encoded\<close>

text \<open>A code point is the sum of its groups of six bits.\<close>

lemma six_bit_groups3:
  fixes c :: nat
  shows "c = c div 4096 * 4096 + c div 64 mod 64 * 64 + c mod 64"
proof -
  have 1: "c = c div 64 * 64 + c mod 64" by simp
  have 2: "c div 64 = c div 64 div 64 * 64 + c div 64 mod 64" by simp
  have 3: "c div 64 div 64 = c div 4096" by (simp add: div_mult2_eq)
  from 1 2 3 show ?thesis by linarith
qed

lemma six_bit_groups4:
  fixes c :: nat
  shows "c = c div 262144 * 262144 + c div 4096 mod 64 * 4096 + c div 64 mod 64 * 64 + c mod 64"
proof -
  have 1: "c = c div 4096 * 4096 + c div 64 mod 64 * 64 + c mod 64" by (rule six_bit_groups3)
  have 2: "c div 4096 = c div 4096 div 64 * 64 + c div 4096 mod 64" by simp
  have 3: "c div 4096 div 64 = c div 262144" by (simp add: div_mult2_eq)
  from 1 2 3 show ?thesis by linarith
qed

text \<open>
  The decoder reads back the character that the encoder wrote, whatever follows it.
\<close>


lemma utf8_first_encode_char:
  assumes "utf8_encode_char c = Some b"
  shows "utf8_first (unat (hd b)) (map unat (tl b) @ rest) = (c, length b - 1)"
proof -
  consider (a) "c < 0x80" | (b) "0x80 \<le> c" "c < 0x800"
    | (c) "0x800 \<le> c" "c < 0x10000" "\<not> (0xD800 \<le> c \<and> c < 0xE000)"
    | (d) "0x10000 \<le> c" "c < 0x110000"
    using assms by (auto simp: utf8_encode_char_def split: if_splits)
  then show ?thesis
  proof cases
    case a
    then show ?thesis using assms
      by (auto simp: utf8_encode_char_def utf8_first_def unat_of_nat_byte)
  next
    case b
    define x where "x = c div 64"
    define y where "y = c mod 64"
    have xy: "c = x * 64 + y" "2 \<le> x" "x < 32" "y < 64"
      using b by (auto simp: x_def y_def)
    have bb: "b = [of_nat (0xC0 + x), of_nat (0x80 + y)]"
      using assms b by (auto simp: utf8_encode_char_def x_def y_def)
    have u: "unat (0xC0 + of_nat x :: byte) = 0xC0 + x" "unat (0x80 + of_nat y :: byte) = 0x80 + y"
      using xy unat_of_nat_byte [of "0xC0 + x"] unat_of_nat_byte [of "0x80 + y"] by simp_all
    show ?thesis
      using xy by (simp add: bb u utf8_first_def is_cont_def)
  next
    case c
    define x where "x = c div 4096"
    define y where "y = c div 64 mod 64"
    define z where "z = c mod 64"
    have c_eq: "c = x * 4096 + y * 64 + z"
      unfolding x_def y_def z_def by (rule six_bit_groups3)
    have bnd: "x < 16" "y < 64" "z < 64"
      using c by (auto simp: x_def y_def z_def)
    have e0: "x = 0 \<Longrightarrow> 32 \<le> y" using c c_eq bnd by arith
    have ed: "x = 13 \<Longrightarrow> y < 32" using c c_eq bnd by arith
    have bb: "b = [of_nat (0xE0 + x), of_nat (0x80 + y), of_nat (0x80 + z)]"
      using assms c by (auto simp: utf8_encode_char_def x_def y_def z_def)
    have u: "unat (0xE0 + of_nat x :: byte) = 0xE0 + x" "unat (0x80 + of_nat y :: byte) = 0x80 + y"
       "unat (0x80 + of_nat z :: byte) = 0x80 + z"
      using bnd unat_of_nat_byte [of "0xE0 + x"] unat_of_nat_byte [of "0x80 + y"]
        unat_of_nat_byte [of "0x80 + z"] by simp_all
    show ?thesis
      using bnd e0 ed by (auto simp add: bb u utf8_first_def is_cont_def c_eq)
  next
    case d
    define w where "w = c div 262144"
    define x where "x = c div 4096 mod 64"
    define y where "y = c div 64 mod 64"
    define z where "z = c mod 64"
    have c_eq: "c = w * 262144 + x * 4096 + y * 64 + z"
      unfolding w_def x_def y_def z_def by (rule six_bit_groups4)
    have bnd: "w < 5" "x < 64" "y < 64" "z < 64"
      using d by (auto simp: w_def x_def y_def z_def)
    have f0: "w = 0 \<Longrightarrow> 16 \<le> x" using d c_eq bnd by arith
    have f4: "w = 4 \<Longrightarrow> x < 16" using d c_eq bnd by arith
    have bb: "b = [of_nat (0xF0 + w), of_nat (0x80 + x), of_nat (0x80 + y), of_nat (0x80 + z)]"
      using assms d by (auto simp: utf8_encode_char_def w_def x_def y_def z_def)
    have u: "unat (0xF0 + of_nat w :: byte) = 0xF0 + w" "unat (0x80 + of_nat x :: byte) = 0x80 + x"
       "unat (0x80 + of_nat y :: byte) = 0x80 + y" "unat (0x80 + of_nat z :: byte) = 0x80 + z"
      using bnd unat_of_nat_byte [of "0xF0 + w"] unat_of_nat_byte [of "0x80 + x"]
        unat_of_nat_byte [of "0x80 + y"] unat_of_nat_byte [of "0x80 + z"] by simp_all
    show ?thesis
      using bnd f0 f4 by (auto simp add: bb u utf8_first_def is_cont_def c_eq)
  qed
qed

lemma utf8_encode_char_nonempty: "utf8_encode_char c = Some b \<Longrightarrow> b \<noteq> []"
  by (auto simp: utf8_encode_char_def split: if_splits)

lemma utf8_decode_nat_encode_char:
  assumes "utf8_encode_char c = Some b"
  shows "utf8_decode_nat (map unat b @ rest) = c # utf8_decode_nat rest"
proof -
  from assms obtain b0 bt where b: "b = b0 # bt"
    using utf8_encode_char_nonempty by (cases b) auto
  have "utf8_first (unat b0) (map unat bt @ rest) = (c, length bt)"
    using utf8_first_encode_char [OF assms, of rest] by (simp add: b)
  then show ?thesis by (simp add: b)
qed

lemma utf8_decode_encode: "utf8_encode s = Some bs \<Longrightarrow> utf8_decode bs = s"
proof (induction s arbitrary: bs)
  case Nil
  then show ?case by (simp add: utf8_decode_def)
next
  case (Cons c cs)
  then obtain b bs' where b: "utf8_encode_char c = Some b" "utf8_encode cs = Some bs'" "bs = b @ bs'"
    by (auto split: option.splits)
  have "utf8_decode bs' = cs" using Cons.IH b by simp
  then show ?case
    using utf8_decode_nat_encode_char [OF b(1), of "map unat bs'"]
    by (simp add: utf8_decode_def b)
qed

subsection \<open>Unquoting what was quoted\<close>


lemma unquote_parts_ascii:
  "\<forall>c \<in> set s. c < 0x80 \<Longrightarrow> unquote_parts run s = unquote_run (run @ s)"
  by (induction s arbitrary: run) simp_all

lemma unquote_to_bytes_plain:
  "ord CHR ''%'' \<notin> set s \<Longrightarrow> unquote_to_bytes s = map of_nat s"
  by (induction s) simp_all

lemma utf8_decode_nat_ascii:
  "\<forall>c \<in> set s. c < 0x80 \<Longrightarrow> utf8_decode_nat s = s"
  by (induction s) (simp_all add: utf8_first_def)

lemma utf8_decode_ascii:
  assumes "\<forall>c \<in> set s. c < 0x80"
  shows "utf8_decode (map of_nat s) = s"
proof -
  have "map unat (map of_nat s :: bytes) = s"
    using assms by (induction s) (simp_all add: unat_of_nat_byte)
  then show ?thesis
    using assms by (simp add: utf8_decode_def utf8_decode_nat_ascii)
qed

lemma unquote_ascii:
  assumes "\<forall>c \<in> set s. c < 0x80"
  shows "unquote s = utf8_decode (unquote_to_bytes s)"
proof (cases "ord CHR ''%'' \<in> set s")
  case True
  then show ?thesis
    using assms by (simp add: unquote_def unquote_parts_ascii unquote_run_def)
next
  case False
  then show ?thesis
    using assms by (simp add: unquote_def unquote_to_bytes_plain utf8_decode_ascii)
qed

lemma unquote_quote: "quote s = Inr q \<Longrightarrow> unquote q = s"
proof -
  assume "quote s = Inr q"
  then obtain bs where bs: "utf8_encode s = Some bs" "q = quote_from_bytes bs"
    by (auto simp: quote_def split: option.splits)
  have "\<forall>c \<in> set q. c < 0x80"
    using bs(2) quote_from_bytes_chars quoted_char_ascii by blast
  then have "unquote q = utf8_decode (unquote_to_bytes q)"
    by (rule unquote_ascii)
  then show ?thesis
    by (simp add: bs unquote_to_bytes_quote_from_bytes utf8_decode_encode)
qed

lemma quote_chars: "quote s = Inr q \<Longrightarrow> c \<in> set q \<Longrightarrow> quoted_char c"
  by (auto simp: quote_def split: option.splits dest: quote_from_bytes_chars)

lemma quote_Nil: "quote [] = Inr []"
  by (simp add: quote_def quote_from_bytes_def)

lemma quote_eq_Nil: "quote s = Inr [] \<Longrightarrow> s = []"
  using unquote_quote [of s "[]"] by (simp add: unquote_def)

lemma quote_each_length: "quote_each ts = Inr qs \<Longrightarrow> length qs = length ts"
  by (induction ts arbitrary: qs) (auto split: sum.splits)

lemma quote_each_unquote: "quote_each ts = Inr qs \<Longrightarrow> map unquote qs = ts"
  by (induction ts arbitrary: qs) (auto split: sum.splits simp: unquote_quote)

lemma quote_each_chars:
  "quote_each ts = Inr qs \<Longrightarrow> q \<in> set qs \<Longrightarrow> c \<in> set q \<Longrightarrow> quoted_char c"
  by (induction ts arbitrary: qs) (auto split: sum.splits dest: quote_chars)

subsection \<open>split and join\<close>

lemma split_not_Nil: "split sep s \<noteq> []"
  by (induction s) (auto split: list.splits)

lemma split_no_sep: "sep \<notin> set s \<Longrightarrow> split sep s = [s]"
  by (induction s) auto

lemma split_append_sep:
  "sep \<notin> set a \<Longrightarrow> split sep (a @ sep # b) = a # split sep b"
  by (induction a) (auto split: list.splits simp: split_not_Nil)

lemma split_join:
  "qs \<noteq> [] \<Longrightarrow> \<forall>q \<in> set qs. sep \<notin> set q \<Longrightarrow> split sep (join [sep] qs) = qs"
proof (induction qs rule: induct_list012)
  case 1
  then show ?case by simp
next
  case (2 x)
  then show ?case by (simp add: split_no_sep)
next
  case (3 x y zs)
  then show ?case by (simp add: split_append_sep)
qed

lemma join_eq_Nil: "join [sep] qs = [] \<longleftrightarrow> qs = [] \<or> qs = [[]]"
  by (induction qs rule: induct_list012) auto

lemma join_chars: "c \<in> set (join [sep] qs) \<Longrightarrow> c = sep \<or> (\<exists>q \<in> set qs. c \<in> set q)"
  by (induction qs rule: induct_list012) auto

lemma length_split: "length (split sep s) = Suc (count_list s sep)"
  by (induction s) (auto split: list.splits simp: split_not_Nil)

subsection \<open>The expiry as text\<close>

text \<open>\<open>int(_, 16)\<close> reads every non-empty string of hexadecimal digits, and so what
  \<open>'{:08x}'.format\<close> writes for a number that is not negative.\<close>


declare hex_nat.simps [simp del]

lemma is_hexdig_range:
  "is_hexdig c \<longleftrightarrow> (48 \<le> c \<and> c \<le> 57) \<or> (97 \<le> c \<and> c \<le> 102) \<or> (65 \<le> c \<and> c \<le> 70)"
  by (auto simp: is_hexdig_def digit_value_def)

lemma scan_digits_hex:
  "\<forall>c \<in> set s. is_hexdig c \<Longrightarrow> prev \<noteq> ord CHR ''_''
     \<Longrightarrow> scan_digits prev acc s = Some (acc @ map digit_value s, [])"
proof (induction s arbitrary: prev acc)
  case Nil
  then show ?case by simp
next
  case (Cons c cs)
  then have c: "is_hexdig c" by simp
  then have "c \<noteq> ord CHR ''_''" by (auto simp: is_hexdig_range ord_simps)
  with Cons c show ?case by (simp add: is_hexdig_def)
qed

lemma to_ascii_hex: "\<forall>c \<in> set s. is_hexdig c \<Longrightarrow> to_ascii R s = s"
  by (auto simp: to_ascii_def is_hexdig_range)

lemma int16_hex:
  assumes "s \<noteq> []" "\<forall>c \<in> set s. is_hexdig c"
  shows "int16 R s = Some (int (digits_value (map digit_value s)))"
proof -
  from assms obtain c cs where s: "s = c # cs" by (cases s) auto
  have c: "is_hexdig c" using assms s by simp
  have 1: "dropWhile py_isspace s = s"
    using c by (auto simp: s py_isspace_def is_hexdig_range)
  have 2: "strip_sign s = (False, s)"
    using c by (auto simp: s strip_sign_def is_hexdig_range ord_simps)
  have 3: "strip_prefix16 s = s"
  proof (cases cs)
    case Nil
    then show ?thesis by (simp add: s strip_prefix16_def)
  next
    case (Cons c1 cs1)
    then have "is_hexdig c1" using assms s by simp
    then have "c1 \<noteq> ord CHR ''x'' \<and> c1 \<noteq> ord CHR ''X''"
      by (auto simp: is_hexdig_range ord_simps)
    then show ?thesis by (simp add: s Cons strip_prefix16_def)
  qed
  have 4: "hd s \<noteq> ord CHR ''_''"
    using c by (auto simp: s is_hexdig_range ord_simps)
  have 5: "scan_digits 0 [] s = Some (map digit_value s, [])"
    using scan_digits_hex [OF assms(2), of 0 "[]"] by (simp add: ord_simps)
  show ?thesis
    using assms(1) by (simp add: int16_def to_ascii_hex [OF assms(2)] 1 2 3 4 5)
qed

lemma digits_value_snoc: "digits_value (ds @ [d]) = digits_value ds * 16 + d"
  by (simp add: digits_value_def)

lemma digits_value_zeros: "digits_value (replicate k 0 @ ds) = digits_value ds"
proof -
  have "foldl (\<lambda>a d. a * 16 + d) 0 (replicate k 0) = (0::nat)"
    by (induction k) simp_all
  then show ?thesis by (simp add: digits_value_def)
qed

lemma hex_nat_lower: "c \<in> set (hex_nat n) \<Longrightarrow> is_lower_hexdig c"
proof (induction n rule: hex_nat.induct)
  case (1 n)
  show ?case
  proof (cases "n < 16")
    case True
    with 1(2) show ?thesis
      by (simp add: hex_nat.simps [of n] is_lower_hexdig_hexdig_lower)
  next
    case False
    with 1 show ?thesis
      by (auto simp: hex_nat.simps [of n] is_lower_hexdig_hexdig_lower)
  qed
qed

lemma hex_nat_value: "digits_value (map digit_value (hex_nat n)) = n"
proof (induction n rule: hex_nat.induct)
  case (1 n)
  show ?case
  proof (cases "n < 16")
    case True
    then show ?thesis
      by (simp add: hex_nat.simps [of n] digits_value_def digit_value_hexdig_lower)
  next
    case False
    with 1 show ?thesis
      by (simp add: hex_nat.simps [of n] digits_value_snoc digit_value_hexdig_lower)
  qed
qed

lemma hex_nat_not_Nil: "hex_nat n \<noteq> []"
  by (simp add: hex_nat.simps [of n])

lemma hex_nat_length: "n < 16 ^ Suc k \<Longrightarrow> length (hex_nat n) \<le> Suc k"
proof (induction k arbitrary: n)
  case 0
  then show ?case by (simp add: hex_nat.simps [of n])
next
  case (Suc k)
  show ?case
  proof (cases "n < 16")
    case True
    then show ?thesis by (simp add: hex_nat.simps [of n])
  next
    case False
    have "n div 16 < 16 ^ Suc k"
      using Suc.prems by (simp add: less_mult_imp_div_less)
    then have "length (hex_nat (n div 16)) \<le> Suc k" by (rule Suc.IH)
    with False show ?thesis by (simp add: hex_nat.simps [of n])
  qed
qed

lemma format_08x_nonneg:
  "0 \<le> v \<Longrightarrow>
   format_08x v = replicate (8 - length (hex_nat (nat v))) (ord CHR ''0'') @ hex_nat (nat v)"
  by (simp add: format_08x_def Let_def)

lemma format_08x_length:
  assumes "0 \<le> v" "v < 2 ^ 32"
  shows "length (format_08x v) = 8"
proof -
  have "nat v < 16 ^ Suc 7" using assms by simp
  then have "length (hex_nat (nat v)) \<le> 8"
    using hex_nat_length [of "nat v" 7] by simp
  then show ?thesis using assms by (simp add: format_08x_nonneg)
qed

lemma format_08x_lower:
  "0 \<le> v \<Longrightarrow> c \<in> set (format_08x v) \<Longrightarrow> is_lower_hexdig c"
  by (auto simp: format_08x_nonneg ord_simps is_lower_hexdig_def dest: hex_nat_lower)

lemma int16_format_08x:
  assumes "0 \<le> v"
  shows "int16 R (format_08x v) = Some v"
proof -
  have ne: "format_08x v \<noteq> []"
    using assms by (simp add: format_08x_nonneg hex_nat_not_Nil)
  have hx: "\<forall>c \<in> set (format_08x v). is_hexdig c"
    using assms format_08x_lower is_lower_hexdig_is_hexdig by blast
  have "digits_value (map digit_value (format_08x v)) = nat v"
    using assms
    by (simp add: format_08x_nonneg ord_simps digit_value_def [of 48] digits_value_zeros hex_nat_value)
  then show ?thesis
    using int16_hex [OF ne hx, of R] assms by simp
qed

section \<open>Properties of the ticket factory\<close>

subsection \<open>The digest computation\<close>


lemma hexdigest_eq:
  assumes "hash f < length h"
  shows "hexdigest f data0 data1 h =
    (hex_bytes (hash_fun (alg (h ! hash f))
       (fed (h ! hash f) @ hash_fun (alg (h ! hash f)) (fed (h ! hash f) @ data0 @ secret f @ data1) @ secret f)),
     h @ digest_objs f h data0 data1)"
  using assms
  by (simp add: hexdigest_def hashobj_copy_def hashobj_update_def hashobj_digest_def
      hashobj_hexdigest_def digest_objs_def Let_def nth_append list_update_append)

lemma hexdigest_fresh:
  assumes "factory_ok f h"
  shows "hexdigest f data0 data1 h =
    (spec_mac (factory_hash_fun f h) (secret f) data0 data1, h @ digest_objs f h data0 data1)"
  using assms hexdigest_eq [of f h data0 data1]
  by (simp add: factory_ok_def spec_mac_def factory_hash_fun_def)

lemma length_digest_objs: "length (digest_objs f h data0 data1) = 2"
  by (simp add: digest_objs_def Let_def)

lemma factory_ok_append: "factory_ok f h \<Longrightarrow> factory_ok f (h @ g)"
  by (simp add: factory_ok_def nth_append)

lemma factory_hash_fun_append:
  "hash f < length h \<Longrightarrow> factory_hash_fun f (h @ g) = factory_hash_fun f h"
  by (simp add: factory_hash_fun_def nth_append)

lemma digest_size_append:
  "hash f < length h \<Longrightarrow> hashobj_digest_size (hash f) (h @ g) = hashobj_digest_size (hash f) h"
  by (simp add: hashobj_digest_size_def nth_append)

lemma length_hex_bytes: "length (hex_bytes bs) = 2 * length bs"
  by (induction bs) (simp_all add: hex_bytes_def hex_byte_def)

lemma hex_bytes_lower: "c \<in> set (hex_bytes bs) \<Longrightarrow> is_lower_hexdig c"
proof -
  have "\<And>b. unat (b :: byte) div 16 < 16"
    using unat_byte_lt by (simp add: less_mult_imp_div_less)
  then show "c \<in> set (hex_bytes bs) \<Longrightarrow> is_lower_hexdig c"
    by (auto simp: hex_bytes_def hex_byte_def is_lower_hexdig_hexdig_lower)
qed

lemma length_spec_mac:
  "factory_ok f h \<Longrightarrow>
   length (spec_mac (factory_hash_fun f h) s d0 d1) = hashobj_digest_size (hash f) h * 2"
  by (simp add: factory_ok_def hash_ok_def spec_mac_def factory_hash_fun_def
      length_hex_bytes hashobj_digest_size_def)

lemma join3: "join [s] [a, b, c] = a @ s # b @ s # c"
  by simp

lemma str_simps: "str '','' = [44]" "str ''!'' = [33]"
  by (simp_all add: str_def ord_def)

text \<open>What \<open>new\<close> returns when nothing raises.\<close>

lemma new_eq:
  assumes ok: "factory_ok f h"
    and qu: "quote uid = Inr qu"
    and qs: "quote_each toks = Inr qs"
    and qd: "quote ud = Inr qd"
    and v: "0 \<le> v" "v < 2 ^ 32"
    and enc: "enc (qu @ 0 # join [44] qs @ 0 # qd) = Inr data1"
  shows "new R f uid toks ud (Some v) ip enc h =
     (Inr (spec_mac (factory_hash_fun f h) (secret f) (spec_data0 (the_ip ip) v) data1
            @ format_08x v @ qu @ 33 # join [44] qs @ 33 # qd),
      h @ digest_objs f h (spec_data0 (the_ip ip) v) data1)"
proof -
  have ts: "(if toks \<noteq> [] then (case quote_each toks of Inl e \<Rightarrow> Inl e
                | Inr qs \<Rightarrow> Inr (join [44] qs)) else Inr []) = Inr (join [44] qs)"
    using qs by (cases toks) simp_all
  have us: "(if ud = [] then Inr [] else quote ud) = Inr qd"
    using qd by (auto simp: quote_Nil)
  have pk: "pack_I v = Inr (big_endian 4 (nat v))"
    using v by (simp add: pack_I_def)
  have hd: "hexdigest f (spec_data0 (the_ip ip) v) data1 h = (spec_mac (factory_hash_fun f h) (secret f) (spec_data0 (the_ip ip) v) data1, h @ digest_objs f h (spec_data0 (the_ip ip) v) data1)"
    by (rule hexdigest_fresh [OF ok])
  have d0: "[of_nat (version (the_ip ip))] @ packed (the_ip ip) @ big_endian 4 (nat v) = spec_data0 (the_ip ip) v"
    by (cases "the_ip ip") (simp_all add: spec_data0_def)
  have j: "join [0] [qu, join [44] qs, qd] = qu @ 0 # join [44] qs @ 0 # qd"
    by simp
  show ?thesis
    unfolding new_def the_ip_def [symmetric] Let_def str_simps
    by (simp only: qu ts us pk sum.case option.case d0 j enc hd prod.case join3 append_assoc)
qed

subsection \<open>Parsing a text of the ticket's shape\<close>


lemma split_three:
  assumes "s \<notin> set a" "s \<notin> set b" "s \<notin> set c"
  shows "split s (a @ s # b @ s # c) = [a, b, c]"
  using assms by (simp add: split_append_sep split_no_sep)

lemma parse_eq:
  assumes d: "length d = hashobj_digest_size (hash f) h * 2"
    and t: "length t8 = 8" "int16 R t8 = Some v"
    and a: "33 \<notin> set a" "33 \<notin> set b" "33 \<notin> set c"
  shows "parse R f (d @ t8 @ a @ 33 # b @ 33 # c) h =
     Inr \<lparr>digest = d, user_id = unquote a,
          tokens = (if b \<noteq> [] then map unquote (split 44 b) else []),
          user_data = unquote c, valid_until = v\<rparr>"
proof -
  let ?n = "hashobj_digest_size (hash f) h * 2"
  let ?t = "d @ t8 @ a @ 33 # b @ 33 # c"
  have 1: "\<not> length ?t < min_ticket_size f h"
    using d t(1) by (simp add: min_ticket_size_def)
  have 2: "take ?n ?t = d" using d by simp
  have 3: "take 8 (drop ?n ?t) = t8" using d t(1) by simp
  have 4: "drop (?n + 8) ?t = a @ 33 # b @ 33 # c"
    using d t(1) by (simp add: drop_append)
  have 5: "split 33 (a @ 33 # b @ 33 # c) = [a, b, c]"
    using a by (rule split_three)
  show ?thesis
    unfolding parse_def Let_def ord_simps
    by (simp only: 1 2 3 4 5 t(2) if_False option.case) simp
qed

subsection \<open>Well-formed strings and the fields of a ticket\<close>


lemma utf8_encode_char_scalar: "scalar_value c \<Longrightarrow> \<exists>b. utf8_encode_char c = Some b"
  by (auto simp: scalar_value_def utf8_encode_char_def)

lemma utf8_encode_well_formed: "well_formed s \<Longrightarrow> \<exists>bs. utf8_encode s = Some bs"
proof (induction s)
  case Nil
  then show ?case by simp
next
  case (Cons c cs)
  then obtain b bs where "utf8_encode_char c = Some b" "utf8_encode cs = Some bs"
    using utf8_encode_char_scalar [of c] by (auto simp: well_formed_def)
  then show ?case by simp
qed

lemma quote_well_formed: "well_formed s \<Longrightarrow> \<exists>q. quote s = Inr q"
  using utf8_encode_well_formed [of s] by (auto simp: quote_def)

lemma quote_each_well_formed:
  "\<forall>t \<in> set ts. well_formed t \<Longrightarrow> \<exists>qs. quote_each ts = Inr qs"
proof (induction ts)
  case Nil
  then show ?case by simp
next
  case (Cons t ts)
  then obtain q qs where "quote t = Inr q" "quote_each ts = Inr qs"
    using quote_well_formed [of t] by auto
  then show ?case by simp
qed

lemma utf8_encode_ascii: "\<forall>c \<in> set s. c < 0x80 \<Longrightarrow> utf8_encode s = Some (map of_nat s)"
  by (induction s) (simp_all add: utf8_encode_char_def)

lemma utf_8_ascii: "\<forall>c \<in> set s. c < 0x80 \<Longrightarrow> utf_8 s = Inr (map of_nat s)"
  by (simp add: utf_8_def utf8_encode_ascii)

lemma payload_ascii:
  assumes "quote uid = Inr qu" "quote_each toks = Inr qs" "quote ud = Inr qd"
  shows "\<forall>c \<in> set (qu @ 0 # join [44] qs @ 0 # qd). c < 0x80"
proof
  fix c assume "c \<in> set (qu @ 0 # join [44] qs @ 0 # qd)"
  then consider "c \<in> set qu" | "c = 0" | "c \<in> set (join [44] qs)" | "c \<in> set qd"
    by auto
  then show "c < 0x80"
  proof cases
    case 1
    then show ?thesis using assms(1) quote_chars quoted_char_ascii by blast
  next
    case 2
    then show ?thesis by simp
  next
    case 3
    then have "c = 44 \<or> (\<exists>q \<in> set qs. c \<in> set q)" by (rule join_chars)
    then show ?thesis using assms(2) quote_each_chars quoted_char_ascii by fastforce
  next
    case 4
    then show ?thesis using assms(3) quote_chars quoted_char_ascii by blast
  qed
qed

lemma no_bang:
  "quote s = Inr q \<Longrightarrow> 33 \<notin> set q"
  using quote_chars [of s q 33] quoted_char_not_delim [of 33] by (auto simp: ord_simps)

lemma no_bang_join:
  assumes "quote_each ts = Inr qs"
  shows "33 \<notin> set (join [44] qs)"
proof
  assume "33 \<in> set (join [44] qs)"
  then have "\<exists>q \<in> set qs. 33 \<in> set q" using join_chars [of 33 44 qs] by simp
  then show False
    using assms quote_each_chars [of ts qs _ 33] quoted_char_not_delim [of 33]
    by (auto simp: ord_simps)
qed

lemma no_comma_each:
  assumes "quote_each ts = Inr qs"
  shows "\<forall>q \<in> set qs. 44 \<notin> set q"
  using assms quote_each_chars [of ts qs _ 44] quoted_char_not_delim [of 44]
  by (auto simp: ord_simps)

lemma quote_each_Nil_iff: "quote_each ts = Inr [] \<longleftrightarrow> ts = []"
  by (cases ts) (auto split: sum.splits)

lemma quote_each_single_Nil: "quote_each ts = Inr [[]] \<longleftrightarrow> ts = [[]]"
proof
  assume a: "quote_each ts = Inr [[]]"
  then have "map unquote [[]] = ts" by (rule quote_each_unquote)
  then show "ts = [[]]" by (simp add: unquote_def)
next
  assume "ts = [[]]"
  then show "quote_each ts = Inr [[]]" by (simp add: quote_Nil)
qed

text \<open>The token field read back.\<close>

lemma tokens_back:
  assumes "quote_each ts = Inr qs"
  shows "(if join [44] qs \<noteq> [] then map unquote (split 44 (join [44] qs)) else [])
         = (if ts = [[]] then [] else ts)"
proof (cases "join [44] qs = []")
  case True
  then have "qs = [] \<or> qs = [[]]" by (simp add: join_eq_Nil)
  then have "ts = [] \<or> ts = [[]]"
    using assms by (auto simp: quote_each_Nil_iff quote_each_single_Nil)
  with True show ?thesis by auto
next
  case False
  then have ne: "qs \<noteq> []" "qs \<noteq> [[]]" by (auto simp: join_eq_Nil)
  have "split 44 (join [44] qs) = qs"
    using ne(1) no_comma_each [OF assms] by (rule split_join)
  moreover have "ts \<noteq> [[]]" using ne(2) assms by (auto simp: quote_Nil)
  ultimately show ?thesis
    using False quote_each_unquote [OF assms] by simp
qed

text \<open>Reading back what \<open>new\<close> wrote.\<close>

lemma parse_new:
  assumes ok: "factory_ok f h"
    and qu: "quote uid = Inr qu"
    and qs: "quote_each toks = Inr qs"
    and qd: "quote ud = Inr qd"
    and v: "0 \<le> v" "v < 2 ^ 32"
    and len: "length mac = hashobj_digest_size (hash f) h * 2"
  shows "parse R f (mac @ format_08x v @ qu @ 33 # join [44] qs @ 33 # qd) h =
     Inr \<lparr>digest = mac, user_id = uid, tokens = (if toks = [[]] then [] else toks),
          user_data = ud, valid_until = v\<rparr>"
  using parse_eq [OF len format_08x_length [OF v] int16_format_08x [OF v(1)]
      no_bang [OF qu] no_bang_join [OF qs] no_bang [OF qd], of R]
  by (simp only: tokens_back [OF qs] unquote_quote [OF qu] unquote_quote [OF qd])

subsection \<open>The store across calls\<close>

text \<open>
  \<open>new\<close> either raises and leaves the store as it is, or returns a ticket and appends the
  two objects of its digest computation; the outcome is the same in every store that
  extends the present one.
\<close>


lemma hexdigest_store:
  "hash f < length h \<Longrightarrow> snd (hexdigest f d0 d1 h) = h @ digest_objs f h d0 d1"
  by (simp add: hexdigest_eq)

lemma digest_objs_append:
  "hash f < length h \<Longrightarrow> digest_objs f (h @ g) d0 d1 = digest_objs f h d0 d1"
  by (simp add: digest_objs_def nth_append)

lemma hexdigest_append:
  "hash f < length h \<Longrightarrow> fst (hexdigest f d0 d1 (h @ g)) = fst (hexdigest f d0 d1 h)"
  by (simp add: hexdigest_eq nth_append)

lemma new_cases:
  assumes "hash f < length h"
  shows "(\<exists>e. \<forall>g. new R f uid toks ud vo ip enc (h @ g) = (Inl e, h @ g)) \<or>
         (\<exists>t d0 d1. \<forall>g. new R f uid toks ud vo ip enc (h @ g) =
                         (Inr t, h @ g @ digest_objs f h d0 d1))"
proof -
  have hd: "\<And>d0 d1 g. hexdigest f d0 d1 (h @ g) =
      (fst (hexdigest f d0 d1 h), h @ g @ digest_objs f h d0 d1)"
    using assms by (simp add: hexdigest_eq nth_append digest_objs_append)
  define ts where "ts = (if toks \<noteq> []
            then (case quote_each toks of
                    Inl e \<Rightarrow> Inl e
                  | Inr qs \<Rightarrow> Inr (join (str '','') qs))
            else Inr [])"
  define us where "us = (if ud = [] then Inr [] else quote ud)"
  define until where "until = (case vo of
               None \<Rightarrow> int_of_time (rt_time R) + DEFAULT_TIMEOUT
             | Some v \<Rightarrow> v)"
  note defs = new_def Let_def ts_def [symmetric] us_def [symmetric] until_def [symmetric]
  show ?thesis
  proof (cases "quote uid")
    case (Inl e)
    then show ?thesis unfolding defs by simp
  next
    case qu: (Inr qu)
    show ?thesis
    proof (cases ts)
      case (Inl e)
      then show ?thesis unfolding defs by (simp add: qu)
    next
      case ts: (Inr token_str)
      show ?thesis
      proof (cases us)
        case (Inl e)
        then show ?thesis unfolding defs by (simp add: qu ts)
      next
        case us: (Inr user_str)
        show ?thesis
        proof (cases "pack_I until")
          case (Inl e)
          then show ?thesis unfolding defs by (simp add: qu ts us)
        next
          case pk: (Inr pu)
          show ?thesis
          proof (cases "enc (join [0] [qu, token_str, user_str])")
            case (Inl e)
            then show ?thesis unfolding defs by (simp add: qu ts us pk)
          next
            case (Inr data1)
            then have "\<forall>g. new R f uid toks ud vo ip enc (h @ g) =
                (Inr (join (str ''!'') [fst (hexdigest f ([of_nat (version (the_ip ip))] @ packed (the_ip ip) @ pu) data1 h)
                     @ format_08x until @ qu, token_str, user_str]),
                 h @ g @ digest_objs f h ([of_nat (version (the_ip ip))] @ packed (the_ip ip) @ pu) data1)"
              unfolding defs by (simp add: qu ts us pk hd the_ip_def)
            then show ?thesis by blast
          qed
        qed
      qed
    qed
  qed
qed

lemma new_frame:
  assumes "hash f < length h"
  shows "\<exists>g. snd (new R f uid toks ud vo ip enc h) = h @ g"
  using new_cases [OF assms, of R uid toks ud vo ip enc]
  by (metis append_Nil2 snd_conv)

lemma new_append:
  assumes "hash f < length h"
  shows "fst (new R f uid toks ud vo ip enc (h @ g)) = fst (new R f uid toks ud vo ip enc h)"
  using new_cases [OF assms, of R uid toks ud vo ip enc]
  by (metis append_Nil2 fst_conv)

lemma parse_append:
  "hash f < length h \<Longrightarrow> parse R f t (h @ g) = parse R f t h"
  by (simp add: parse_def min_ticket_size_def digest_size_append)

lemma validate_cases:
  assumes "hash f < length h"
  shows "\<exists>r k. \<forall>g. validate R f t ip now enc (h @ g) = (r, h @ g @ k)"
proof (cases "parse R f t h")
  case (Inl e)
  then have "\<forall>g. validate R f t ip now enc (h @ g) = (Inl e, h @ g @ [])"
    using assms by (simp add: validate_def parse_append)
  then show ?thesis by blast
next
  case (Inr p)
  let ?new = "new R f (user_id p) (tokens p) (user_data p) (Some (valid_until p)) ip enc"
  from new_cases [OF assms, of R "user_id p" "tokens p" "user_data p" "Some (valid_until p)" ip enc]
  show ?thesis
  proof (elim disjE exE)
    fix e assume "\<forall>g. ?new (h @ g) = (Inl e, h @ g)"
    then have "\<forall>g. validate R f t ip now enc (h @ g) = (Inl e, h @ g @ [])"
      using assms Inr by (simp add: validate_def parse_append)
    then show ?thesis by blast
  next
    fix c d0 d1 assume n: "\<forall>g. ?new (h @ g) = (Inr c, h @ g @ digest_objs f h d0 d1)"
    have ds: "\<And>g. hashobj_digest_size (hash f) (h @ g @ digest_objs f h d0 d1)
        = hashobj_digest_size (hash f) h"
      using assms digest_size_append [of f h] by simp
    have "\<forall>g. validate R f t ip now enc (h @ g) =
        (if take (hashobj_digest_size (hash f) h * 2) c \<noteq> digest p then Inl (TicketDigestError t)
         else if real_of_int (valid_until p) \<le> (case now of None \<Rightarrow> rt_time R | Some x \<Rightarrow> x)
              then Inl (TicketExpired t) else Inr p,
         h @ g @ digest_objs f h d0 d1)"
      using assms Inr n by (simp add: validate_def parse_append ds Let_def)
    then show ?thesis by blast
  qed
qed

subsection \<open>The concrete factory\<close>


lemma init_eq: "init s a h = (\<lparr>secret = s, hash = length h\<rparr>, h @ [\<lparr>alg = a, fed = []\<rparr>])"
  by (simp add: init_def hashlib_new_def)

lemma init_factory_ok:
  "hash_ok a \<Longrightarrow> factory_ok (fst (init s a h)) (snd (init s a h))"
  by (simp add: init_eq factory_ok_def)

lemma example_alg_ok: "hash_ok example_alg"
  by (simp add: hash_ok_def example_alg_def)

lemma example_factory_ok: "factory_ok example_factory example_store"
  unfolding example_factory_def example_store_def
  by (rule init_factory_ok [OF example_alg_ok])

lemma example_digest_size: "hashobj_digest_size (hash example_factory) example_store = 64"
  by (simp add: example_factory_def example_store_def init_eq hashobj_digest_size_def example_alg_def)

lemma example_hash_lt: "hash example_factory < length example_store"
  using example_factory_ok by (simp add: factory_ok_def)

lemma quote_alice: "quote (str ''alice'') = Inr (str ''alice'')"
  by (simp add: quote_def str_def ord_def utf8_encode_char_def quote_from_bytes_def
      quote_byte_def always_safe_def)

lemma well_formed_ascii: "\<forall>c \<in> set s. c < 0x80 \<Longrightarrow> well_formed s"
  by (auto simp: well_formed_def scalar_value_def)

lemma well_formed_alice: "well_formed (str ''alice'')"
  by (simp add: well_formed_def scalar_value_def str_def ord_def)

lemma big_endian_length: "length (big_endian k n) = k"
  by (induction k) simp_all

lemma big_endian_4:
  "big_endian 4 n = [of_nat (n div 16777216), of_nat (n div 65536), of_nat (n div 256), of_nat n]"
proof -
  have "(4::nat) = Suc (Suc (Suc (Suc 0)))" by simp
  then show ?thesis by (simp only: big_endian.simps) simp
qed

lemma example_hash_fun:
  "factory_hash_fun example_factory example_store = (\<lambda>bs. replicate 64 (sum_list bs))"
  by (simp add: factory_hash_fun_def example_factory_def example_store_def init_eq example_alg_def)

lemma example_secret: "secret example_factory = map of_nat (str ''s3cret'')"
  by (simp add: example_factory_def init_eq)

lemma default_data0:
  "spec_data0 (the_ip None) v = [4, 0, 0, 0, 0] @ big_endian 4 (nat v)"
  by (simp add: spec_data0_def the_ip_def DEFAULT_IP_def big_endian_4)

subsection \<open>Validating\<close>


lemma validate_eq:
  assumes "parse R f t h = Inr p"
    and "new R f (user_id p) (tokens p) (user_data p) (Some (valid_until p)) ip enc h = (Inr c, h1)"
  shows "validate R f t ip now enc h =
     (if take (hashobj_digest_size (hash f) h1 * 2) c \<noteq> digest p then Inl (TicketDigestError t)
      else if real_of_int (valid_until p) \<le> (case now of None \<Rightarrow> rt_time R | Some x \<Rightarrow> x)
      then Inl (TicketExpired t) else Inr p, h1)"
  by (simp add: validate_def assms Let_def)

lemma quote_each_back:
  assumes "quote_each toks = Inr qs"
  shows "\<exists>qs'. quote_each (if toks = [[]] then [] else toks) = Inr qs' \<and> join [44] qs' = join [44] qs"
  using assms by (cases "toks = [[]]") (auto simp: quote_Nil)

text \<open>A ticket that \<open>new\<close> issued passes the digest check of \<open>validate\<close>.\<close>

lemma validate_new:
  assumes ok: "factory_ok f h"
    and qu: "quote uid = Inr qu"
    and qs: "quote_each toks = Inr qs"
    and qd: "quote ud = Inr qd"
    and v: "0 \<le> v" "v < 2 ^ 32"
    and enc: "enc (qu @ 0 # join [44] qs @ 0 # qd) = Inr data1"
    and t: "t = spec_mac (factory_hash_fun f h) (secret f) (spec_data0 (the_ip ip) v) data1
            @ format_08x v @ qu @ 33 # join [44] qs @ 33 # qd"
  shows "fst (validate R f t ip now enc h) =
     (if real_of_int v \<le> (case now of None \<Rightarrow> rt_time R | Some x \<Rightarrow> x)
      then Inl (TicketExpired t)
      else Inr \<lparr>digest = spec_mac (factory_hash_fun f h) (secret f) (spec_data0 (the_ip ip) v) data1,
                user_id = uid, tokens = (if toks = [[]] then [] else toks),
                user_data = ud, valid_until = v\<rparr>)"
proof -
  let ?mac = "spec_mac (factory_hash_fun f h) (secret f) (spec_data0 (the_ip ip) v) data1"
  let ?p = "\<lparr>digest = ?mac, user_id = uid, tokens = (if toks = [[]] then [] else toks),
             user_data = ud, valid_until = v\<rparr>"
  have len: "length ?mac = hashobj_digest_size (hash f) h * 2"
    using ok by (rule length_spec_mac)
  have p: "parse R f t h = Inr ?p"
    unfolding t by (rule parse_new [OF ok qu qs qd v len])
  obtain qs' where qs': "quote_each (if toks = [[]] then [] else toks) = Inr qs'"
      "join [44] qs' = join [44] qs"
    using quote_each_back [OF qs] by blast
  have n: "new R f (user_id ?p) (tokens ?p) (user_data ?p) (Some (valid_until ?p)) ip enc h =
      (Inr t, h @ digest_objs f h (spec_data0 (the_ip ip) v) data1)"
    using new_eq [OF ok qu qs'(1) qd v, of enc data1 R ip] enc
    by (simp add: qs'(2) t)
  have ds: "hashobj_digest_size (hash f) (h @ digest_objs f h (spec_data0 (the_ip ip) v) data1)
      = hashobj_digest_size (hash f) h"
    using ok by (simp add: digest_size_append factory_ok_def)
  have tk: "take (hashobj_digest_size (hash f) h * 2) t = ?mac"
    using len by (simp add: t)
  show ?thesis
    by (simp add: validate_eq [OF p n] ds tk)
qed

section \<open>Issuing and reading back\<close>

text \<open>
  Claim C1, as amended.  For a factory as \<open>__init__\<close> leaves it, well-formed strings
  \<open>user_id\<close>, \<open>tokens\<close> and \<open>user_data\<close> and an expiry in the unsigned 32-bit range,
  \<open>new\<close> returns a ticket and \<open>parse\<close> of that ticket returns the same \<open>user_id\<close>,
  \<open>user_data\<close> and \<open>valid_until\<close>, and the same \<open>tokens\<close> unless \<open>tokens\<close> is the
  one-element sequence holding the empty string, which is read back as no tokens.
\<close>

theorem new_parse_roundtrip:
  assumes "factory_ok f h"
    and "well_formed uid" "list_all well_formed toks" "well_formed ud"
    and "0 \<le> v" "v < 2 ^ 32"
  shows "\<exists>t h1 d. new R f uid toks ud (Some v) ip utf_8 h = (Inr t, h1) \<and>
           parse R f t h1 =
             Inr \<lparr>digest = d, user_id = uid, tokens = (if toks = [[]] then [] else toks),
                  user_data = ud, valid_until = v\<rparr>"
proof -
  obtain qu where qu: "quote uid = Inr qu"
    using assms(2) quote_well_formed by blast
  obtain qs where qs: "quote_each toks = Inr qs"
    using assms(3) quote_each_well_formed by (auto simp: list_all_iff)
  obtain qd where qd: "quote ud = Inr qd"
    using assms(4) quote_well_formed by blast
  let ?data1 = "map of_nat (qu @ 0 # join [44] qs @ 0 # qd) :: bytes"
  let ?d0 = "spec_data0 (the_ip ip) v"
  let ?mac = "spec_mac (factory_hash_fun f h) (secret f) ?d0 ?data1"
  let ?t = "?mac @ format_08x v @ qu @ 33 # join [44] qs @ 33 # qd"
  let ?h1 = "h @ digest_objs f h ?d0 ?data1"
  have enc: "utf_8 (qu @ 0 # join [44] qs @ 0 # qd) = Inr ?data1"
    using payload_ascii [OF qu qs qd] by (rule utf_8_ascii)
  have n: "new R f uid toks ud (Some v) ip utf_8 h = (Inr ?t, ?h1)"
    by (rule new_eq [where enc = utf_8, OF assms(1) qu qs qd assms(5,6) enc])
  have ok1: "factory_ok f ?h1"
    using assms(1) by (rule factory_ok_append)
  have len: "length ?mac = hashobj_digest_size (hash f) ?h1 * 2"
    using assms(1) by (simp add: length_spec_mac digest_size_append factory_ok_def)
  have "parse R f ?t ?h1 =
      Inr \<lparr>digest = ?mac, user_id = uid, tokens = (if toks = [[]] then [] else toks),
           user_data = ud, valid_until = v\<rparr>"
    by (rule parse_new [OF ok1 qu qs qd assms(5,6) len])
  with n show ?thesis by blast
qed

text \<open>The round trip at a concrete input.\<close>

theorem new_parse_roundtrip_witness:
  "factory_ok example_factory example_store \<and>
   well_formed (str ''alice'') \<and>
   list_all well_formed [str ''a,b'', [], [0x20AC]] \<and>
   well_formed (str ''x!y'') \<and> (0::int) \<le> 1000000000 \<and> (1000000000::int) < 2 ^ 32 \<and>
   (\<exists>t h1 d. new example_runtime example_factory (str ''alice'') [str ''a,b'', [], [0x20AC]]
                (str ''x!y'') (Some 1000000000) None utf_8 example_store = (Inr t, h1) \<and>
      parse example_runtime example_factory t h1 =
        Inr \<lparr>digest = d, user_id = str ''alice'', tokens = [str ''a,b'', [], [0x20AC]],
             user_data = str ''x!y'', valid_until = 1000000000\<rparr>)"
proof -
  have wf: "well_formed (str ''alice'')" "list_all well_formed [str ''a,b'', [], [0x20AC]]"
      "well_formed (str ''x!y'')"
    by (simp_all add: well_formed_def scalar_value_def str_def ord_def)
  have v: "(0::int) \<le> 1000000000" "(1000000000::int) < 2 ^ 32" by simp_all
  show ?thesis
    using new_parse_roundtrip [OF example_factory_ok wf v, of example_runtime None] wf v
      example_factory_ok
    by simp
qed

text \<open>
  The round trip of claim C1 fails for \<open>tokens = ['']\<close>: the ticket's token field is
  empty, and \<open>parse\<close> reads an empty field as no tokens.
\<close>

theorem roundtrip_single_empty_token_counterexample:
  "fst (new example_runtime example_factory (str ''a'') [[]] [] (Some 10) None utf_8 example_store)
     = Inr (concat (replicate 64 (str ''14'')) @ str ''0000000aa!!'') \<and>
   parse example_runtime example_factory (concat (replicate 64 (str ''14'')) @ str ''0000000aa!!'')
       (snd (new example_runtime example_factory (str ''a'') [[]] [] (Some 10) None utf_8
              example_store))
     = Inr \<lparr>digest = concat (replicate 64 (str ''14'')), user_id = str ''a'', tokens = [],
            user_data = [], valid_until = 10\<rparr>"
proof -
  let ?R = example_runtime and ?f = example_factory and ?h = example_store
  let ?d1 = "map of_nat (str ''a'' @ 0 # join [44] [[]] @ 0 # []) :: bytes"
  let ?d0 = "spec_data0 (the_ip None) 10"
  let ?mac = "spec_mac (factory_hash_fun ?f ?h) (secret ?f) ?d0 ?d1"
  let ?h1 = "?h @ digest_objs ?f ?h ?d0 ?d1"
  have qu: "quote (str ''a'') = Inr (str ''a'')"
    by (simp add: quote_def str_def ord_def utf8_encode_char_def quote_from_bytes_def
        quote_byte_def always_safe_def)
  have qs: "quote_each [[]] = Inr [[]]" by (simp add: quote_Nil)
  have qd: "quote [] = Inr []" by (rule quote_Nil)
  have v: "(0::int) \<le> 10" "(10::int) < 2 ^ 32" by simp_all
  have enc: "utf_8 (str ''a'' @ 0 # join [44] [[]] @ 0 # []) = Inr ?d1"
    by (rule utf_8_ascii) (simp add: str_def ord_def)
  have n: "new ?R ?f (str ''a'') [[]] [] (Some 10) None utf_8 ?h =
      (Inr (?mac @ format_08x 10 @ str ''a'' @ 33 # join [44] [[]] @ 33 # []), ?h1)"
    by (rule new_eq [where enc = utf_8, OF example_factory_ok qu qs qd v enc])
  have mac: "?mac = concat (replicate 64 (str ''14''))"
    by (simp add: spec_mac_def example_hash_fun example_secret default_data0 big_endian_4
        sum_list_replicate hex_bytes_def hex_byte_def hexdig_lower_def str_def ord_def)
  have fmt: "format_08x 10 = str ''0000000a''"
    by (simp add: format_08x_def hex_nat.simps hexdig_lower_def str_def ord_def eval_nat_numeral)
  have tkt: "?mac @ format_08x 10 @ str ''a'' @ 33 # join [44] [[]] @ 33 # []
      = concat (replicate 64 (str ''14'')) @ str ''0000000aa!!''"
    by (simp only: mac fmt) (simp add: str_def ord_def)
  have ok1: "factory_ok ?f ?h1"
    using example_factory_ok by (rule factory_ok_append)
  have len: "length ?mac = hashobj_digest_size (hash ?f) ?h1 * 2"
    using example_factory_ok by (simp add: length_spec_mac digest_size_append factory_ok_def)
  have p: "parse ?R ?f (?mac @ format_08x 10 @ str ''a'' @ 33 # join [44] [[]] @ 33 # []) ?h1 =
      Inr \<lparr>digest = ?mac, user_id = str ''a'', tokens = (if [[]] = [[]] then [] else [[]]),
           user_data = [], valid_until = 10\<rparr>"
    using parse_new [OF ok1 qu qs qd v len, of ?R] by simp
  have p': "parse ?R ?f (concat (replicate 64 (str ''14'')) @ str ''0000000aa!!'') ?h1 =
      Inr \<lparr>digest = concat (replicate 64 (str ''14'')), user_id = str ''a'', tokens = [],
           user_data = [], valid_until = 10\<rparr>"
    using p unfolding tkt unfolding mac by simp
  show ?thesis
    unfolding n fst_conv snd_conv tkt using p' by simp
qed

lemma from_big_endian_aux:
  "foldl (\<lambda>a b. a * 256 + unat (b :: byte)) acc (big_endian k n) = acc * 256 ^ k + n mod 256 ^ k"
proof (induction k arbitrary: acc)
  case 0
  then show ?case by simp
next
  case (Suc k)
  have u: "unat (of_nat (n div 256 ^ k) :: byte) = n div 256 ^ k mod 256"
    by (simp add: unat_of_nat)
  have m: "n mod 256 ^ Suc k = 256 ^ k * (n div 256 ^ k mod 256) + n mod 256 ^ k"
    by (metis mod_mult2_eq power_Suc2)
  show ?case
    by (simp only: big_endian.simps foldl_Cons Suc.IH u m) (simp add: algebra_simps)
qed

lemma from_big_endian_big_endian: "n < 256 ^ k \<Longrightarrow> from_big_endian (big_endian k n) = n"
  by (simp add: from_big_endian_def from_big_endian_aux)

lemma digest_objs_fresh:
  "factory_ok f h \<Longrightarrow>
   digest_objs f h d0 d1 =
     [(h ! hash f)\<lparr>fed := d0 @ secret f @ d1\<rparr>,
      (h ! hash f)\<lparr>fed := factory_hash_fun f h (d0 @ secret f @ d1) @ secret f\<rparr>]"
  by (simp add: digest_objs_def factory_ok_def factory_hash_fun_def Let_def)

section \<open>The digest\<close>

text \<open>
  Claim C2.  When nothing raises, the first \<open>digest_size * 2\<close> characters of the ticket
  that \<open>new\<close> returns are \<open>hex(H(H(data0 || secret || data1) || secret))\<close>.  Here
  \<open>data0\<close> is the version byte (4 or 6), the 4 or 16 address bytes and the expiry as four
  big-endian bytes, and \<open>data1\<close> is the encoding of the quoted \<open>user_id\<close>, a NUL, the
  quoted tokens joined by commas, a NUL and the quoted \<open>user_data\<close>.  The store grows by two
  hash objects, each a copy of the factory's object that was then fed; the factory's own
  object is as before.
\<close>

theorem new_digest_construction:
  assumes "factory_ok f h"
    and "quote uid = Inr qu" "quote_each toks = Inr qs" "quote ud = Inr qd"
    and "0 \<le> v" "v < 2 ^ 32"
    and "enc (qu @ [0] @ join (str '','') qs @ [0] @ qd) = Inr data1"
  shows "\<exists>t h1 data0.
      new R f uid toks ud (Some v) ip enc h = (Inr t, h1) \<and>
      take (hashobj_digest_size (hash f) h * 2) t
        = spec_mac (factory_hash_fun f h) (secret f) data0 data1 \<and>
      data0 = spec_data0 (the_ip ip) v \<and>
      length data0 = (case the_ip ip of IPv4Address a \<Rightarrow> 9 | IPv6Address a \<Rightarrow> 21) \<and>
      from_big_endian (big_endian 4 (nat v)) = nat v \<and>
      h1 = h @ [(h ! hash f)\<lparr>fed := data0 @ secret f @ data1\<rparr>,
                (h ! hash f)\<lparr>fed := factory_hash_fun f h (data0 @ secret f @ data1) @ secret f\<rparr>] \<and>
      h1 ! hash f = h ! hash f"
proof -
  let ?d0 = "spec_data0 (the_ip ip) v"
  let ?mac = "spec_mac (factory_hash_fun f h) (secret f) ?d0 data1"
  let ?t = "?mac @ format_08x v @ qu @ 33 # join [44] qs @ 33 # qd"
  have enc: "enc (qu @ 0 # join [44] qs @ 0 # qd) = Inr data1"
    using assms(7) by (simp add: str_simps)
  have n: "new R f uid toks ud (Some v) ip enc h = (Inr ?t, h @ digest_objs f h ?d0 data1)"
    by (rule new_eq [where enc = enc, OF assms(1-6) enc])
  have tk: "take (hashobj_digest_size (hash f) h * 2) ?t = ?mac"
    using length_spec_mac [OF assms(1), of "secret f" ?d0 data1] by simp
  have len: "length ?d0 = (case the_ip ip of IPv4Address a \<Rightarrow> 9 | IPv6Address a \<Rightarrow> 21)"
    by (cases "the_ip ip") (simp_all add: spec_data0_def big_endian_length)
  have be: "from_big_endian (big_endian 4 (nat v)) = nat v"
    using assms(5,6) by (intro from_big_endian_big_endian) simp
  have nth: "(h @ digest_objs f h ?d0 data1) ! hash f = h ! hash f"
    using assms(1) by (simp add: factory_ok_def nth_append)
  show ?thesis
    using n tk len be nth digest_objs_fresh [OF assms(1), of ?d0 data1] by simp
qed

lemma quote_each_ab: "quote_each [str ''a,b''] = Inr [str ''a%2Cb'']"
  by (simp add: quote_def str_def ord_def utf8_encode_char_def quote_from_bytes_def
      quote_byte_def always_safe_def hexdig_upper_def)

text \<open>The digest of a concrete ticket.\<close>

theorem new_digest_construction_witness:
  "factory_ok example_factory example_store \<and>
   quote (str ''alice'') = Inr (str ''alice'') \<and>
   quote_each [str ''a,b''] = Inr [str ''a%2Cb''] \<and>
   quote [] = Inr [] \<and> (0::int) \<le> 1000000000 \<and> (1000000000::int) < 2 ^ 32 \<and>
   utf_8 (str ''alice'' @ [0] @ join (str '','') [str ''a%2Cb''] @ [0] @ [])
     = Inr (map of_nat (str ''alice'' @ [0] @ str ''a%2Cb'' @ [0])) \<and>
   (\<exists>t h1 data0.
      new example_runtime example_factory (str ''alice'') [str ''a,b''] [] (Some 1000000000)
        None utf_8 example_store = (Inr t, h1) \<and>
      take (hashobj_digest_size (hash example_factory) example_store * 2) t
        = spec_mac (factory_hash_fun example_factory example_store) (secret example_factory)
            data0 (map of_nat (str ''alice'' @ [0] @ str ''a%2Cb'' @ [0])) \<and>
      data0 = spec_data0 (the_ip None) 1000000000)"
proof -
  have e: "utf_8 (str ''alice'' @ [0] @ join (str '','') [str ''a%2Cb''] @ [0] @ [])
     = Inr (map of_nat (str ''alice'' @ [0] @ str ''a%2Cb'' @ [0]))"
    by (simp add: utf_8_def str_def ord_def utf8_encode_char_def)
  have v: "(0::int) \<le> 1000000000" "(1000000000::int) < 2 ^ 32" by simp_all
  from new_digest_construction [where enc = utf_8, OF example_factory_ok quote_alice
      quote_each_ab quote_Nil v e, of example_runtime None]
  obtain t h1 data0 where
    "new example_runtime example_factory (str ''alice'') [str ''a,b''] [] (Some 1000000000)
        None utf_8 example_store = (Inr t, h1)"
    "take (hashobj_digest_size (hash example_factory) example_store * 2) t
        = spec_mac (factory_hash_fun example_factory example_store) (secret example_factory)
            data0 (map of_nat (str ''alice'' @ [0] @ str ''a%2Cb'' @ [0]))"
    "data0 = spec_data0 (the_ip None) 1000000000"
    by blast
  then show ?thesis
    using example_factory_ok quote_alice quote_each_ab quote_Nil e v by blast
qed

lemma quoted_fields_clean:
  assumes "quote uid = Inr qu" "quote_each toks = Inr qs" "quote ud = Inr qd"
  shows "list_all (\<lambda>q. ord CHR '','' \<notin> set q \<and> 0 \<notin> set q \<and> ord CHR ''!'' \<notin> set q)
           (qu # qd # qs)"
proof -
  have "\<And>q c. q \<in> set (qu # qd # qs) \<Longrightarrow> c \<in> set q \<Longrightarrow> quoted_char c"
    using assms quote_chars quote_each_chars by auto
  then show ?thesis
    using quoted_char_not_delim by (fastforce simp: list_all_iff)
qed

section \<open>The text of a ticket\<close>

text \<open>
  Claim C6.  When nothing raises and the expiry is in the unsigned 32-bit range, the
  ticket is the digest, the expiry, the quoted \<open>user_id\<close>, \<open>!\<close>, the quoted tokens joined
  by commas, \<open>!\<close> and the quoted \<open>user_data\<close>, in this order.  The digest has
  \<open>2 * digest_size\<close> lower-case hexadecimal digits; the expiry has eight, padded with
  zeros on the left, and denotes \<open>valid_until\<close>; the token field is empty when there are
  no tokens; and no quoted field holds a comma, a NUL or an exclamation mark.
\<close>

theorem new_serialization:
  assumes "factory_ok f h"
    and "quote uid = Inr qu" "quote_each toks = Inr qs" "quote ud = Inr qd"
    and "0 \<le> v" "v < 2 ^ 32"
    and "enc (qu @ [0] @ join (str '','') qs @ [0] @ qd) = Inr data1"
  shows "\<exists>mac h1.
      new R f uid toks ud (Some v) ip enc h =
        (Inr (mac @ format_08x v @ qu @ str ''!'' @ join (str '','') qs @ str ''!'' @ qd), h1) \<and>
      length mac = 2 * hashobj_digest_size (hash f) h \<and>
      list_all is_lower_hexdig mac \<and>
      length (format_08x v) = 8 \<and>
      list_all is_lower_hexdig (format_08x v) \<and>
      format_08x v = replicate (8 - length (hex_nat (nat v))) (ord CHR ''0'') @ hex_nat (nat v) \<and>
      digits_value (map digit_value (hex_nat (nat v))) = nat v \<and>
      (toks = [] \<longrightarrow> join (str '','') qs = []) \<and>
      list_all (\<lambda>q. ord CHR '','' \<notin> set q \<and> 0 \<notin> set q \<and> ord CHR ''!'' \<notin> set q)
        (qu # qd # qs)"
proof -
  let ?d0 = "spec_data0 (the_ip ip) v"
  let ?mac = "spec_mac (factory_hash_fun f h) (secret f) ?d0 data1"
  have enc: "enc (qu @ 0 # join [44] qs @ 0 # qd) = Inr data1"
    using assms(7) by (simp add: str_simps)
  have n: "new R f uid toks ud (Some v) ip enc h =
      (Inr (?mac @ format_08x v @ qu @ str ''!'' @ join (str '','') qs @ str ''!'' @ qd),
       h @ digest_objs f h ?d0 data1)"
    using new_eq [where enc = enc, OF assms(1-6) enc, of R ip] by (simp add: str_simps)
  have len: "length ?mac = 2 * hashobj_digest_size (hash f) h"
    using length_spec_mac [OF assms(1), of "secret f" ?d0 data1] by simp
  have low: "list_all is_lower_hexdig ?mac"
    by (simp add: list_all_iff spec_mac_def hex_bytes_lower)
  have f8: "length (format_08x v) = 8"
    using assms(5,6) by (rule format_08x_length)
  have flow: "list_all is_lower_hexdig (format_08x v)"
    using assms(5) by (simp add: list_all_iff format_08x_lower)
  have pad: "format_08x v =
      replicate (8 - length (hex_nat (nat v))) (ord CHR ''0'') @ hex_nat (nat v)"
    using assms(5) by (rule format_08x_nonneg)
  have emp: "toks = [] \<longrightarrow> join (str '','') qs = []"
    using assms(3) by auto
  show ?thesis
    using n len low f8 flow pad emp hex_nat_value [of "nat v"]
      quoted_fields_clean [OF assms(2-4)]
    by blast
qed

text \<open>The text of a concrete ticket.\<close>

theorem new_serialization_witness:
  "factory_ok example_factory example_store \<and>
   quote (str ''alice'') = Inr (str ''alice'') \<and>
   quote_each [str ''a,b''] = Inr [str ''a%2Cb''] \<and>
   quote [] = Inr [] \<and> (0::int) \<le> 1000000000 \<and> (1000000000::int) < 2 ^ 32 \<and>
   utf_8 (str ''alice'' @ [0] @ join (str '','') [str ''a%2Cb''] @ [0] @ [])
     = Inr (map of_nat (str ''alice'' @ [0] @ str ''a%2Cb'' @ [0])) \<and>
   (\<exists>mac h1.
      new example_runtime example_factory (str ''alice'') [str ''a,b''] [] (Some 1000000000)
        None utf_8 example_store =
        (Inr (mac @ format_08x 1000000000 @ str ''alice'' @ str ''!''
               @ join (str '','') [str ''a%2Cb''] @ str ''!'' @ []), h1) \<and>
      length mac = 2 * hashobj_digest_size (hash example_factory) example_store \<and>
      list_all is_lower_hexdig mac)"
proof -
  have e: "utf_8 (str ''alice'' @ [0] @ join (str '','') [str ''a%2Cb''] @ [0] @ [])
     = Inr (map of_nat (str ''alice'' @ [0] @ str ''a%2Cb'' @ [0]))"
    by (simp add: utf_8_def str_def ord_def utf8_encode_char_def)
  have v: "(0::int) \<le> 1000000000" "(1000000000::int) < 2 ^ 32" by simp_all
  from new_serialization [where enc = utf_8, OF example_factory_ok quote_alice
      quote_each_ab quote_Nil v e, of example_runtime None]
  obtain mac h1 where
    "new example_runtime example_factory (str ''alice'') [str ''a,b''] [] (Some 1000000000)
        None utf_8 example_store =
        (Inr (mac @ format_08x 1000000000 @ str ''alice'' @ str ''!''
               @ join (str '','') [str ''a%2Cb''] @ str ''!'' @ []), h1)"
    "length mac = 2 * hashobj_digest_size (hash example_factory) example_store"
    "list_all is_lower_hexdig mac"
    by blast
  then show ?thesis
    using example_factory_ok quote_alice quote_each_ab quote_Nil e v by blast
qed

text \<open>What \<open>new\<close> has checked when it returns a ticket.\<close>

lemma new_Inr:
  assumes "new R f uid toks ud vo ip enc h = (Inr t, h1)"
  shows "\<exists>qu qs qd data1.
      quote uid = Inr qu \<and> quote_each toks = Inr qs \<and> quote ud = Inr qd \<and>
      pack_I (case vo of None \<Rightarrow> int_of_time (rt_time R) + DEFAULT_TIMEOUT | Some v \<Rightarrow> v)
        = Inr (big_endian 4 (nat (case vo of None \<Rightarrow> int_of_time (rt_time R) + DEFAULT_TIMEOUT
                                   | Some v \<Rightarrow> v))) \<and>
      enc (qu @ 0 # join [44] qs @ 0 # qd) = Inr data1"
proof -
  define ts where "ts = (if toks \<noteq> []
            then (case quote_each toks of
                    Inl e \<Rightarrow> Inl e
                  | Inr qs \<Rightarrow> Inr (join (str '','') qs))
            else Inr [])"
  define us where "us = (if ud = [] then Inr [] else quote ud)"
  define until where "until = (case vo of
               None \<Rightarrow> int_of_time (rt_time R) + DEFAULT_TIMEOUT
             | Some v \<Rightarrow> v)"
  note defs = new_def Let_def ts_def [symmetric] us_def [symmetric] until_def [symmetric]
  obtain qu where qu: "quote uid = Inr qu"
    using assms unfolding defs by (cases "quote uid") simp_all
  obtain token_str where ts: "ts = Inr token_str"
    using assms unfolding defs by (cases ts) (simp_all add: qu)
  obtain user_str where us: "us = Inr user_str"
    using assms unfolding defs by (cases us) (simp_all add: qu ts)
  obtain pu where pk: "pack_I until = Inr pu"
    using assms unfolding defs by (cases "pack_I until") (simp_all add: qu ts us)
  obtain data1 where d1: "enc (join [0] [qu, token_str, user_str]) = Inr data1"
    using assms unfolding defs
    by (cases "enc (join [0] [qu, token_str, user_str])") (simp_all add: qu ts us pk)
  obtain qs where qs: "quote_each toks = Inr qs" "token_str = join [44] qs"
    using ts unfolding ts_def by (cases toks; cases "quote_each toks") (auto simp: str_simps split: if_splits)
  obtain qd where qd: "quote ud = Inr qd" "user_str = qd"
    using us unfolding us_def by (cases "ud = []") (auto simp: quote_Nil)
  have "pack_I until = Inr (big_endian 4 (nat until))"
    using pk by (auto simp: pack_I_def split: if_splits)
  then show ?thesis
    using qu qs qd d1 unfolding until_def by auto
qed

lemma pack_I_range: "pack_I v = Inr b \<longleftrightarrow> 0 \<le> v \<and> v < 2 ^ 32 \<and> b = big_endian 4 (nat v)"
  by (auto simp: pack_I_def)

text \<open>The concrete ticket.\<close>

lemma example_mac:
  "spec_mac (factory_hash_fun example_factory example_store) (secret example_factory)
     (spec_data0 (the_ip None) 1000000000) (map of_nat (str ''alice'' @ [0, 0]))
   = concat (replicate 64 (str ''94''))"
  by (simp add: spec_mac_def example_hash_fun example_secret default_data0 big_endian_4
      sum_list_replicate hex_bytes_def hex_byte_def hexdig_lower_def str_def ord_def)

lemma format_08x_example: "format_08x 1000000000 = str ''3b9aca00''"
  by (simp add: format_08x_def hex_nat.simps hexdig_lower_def str_def ord_def)

lemma unquote_Nil: "unquote [] = []"
  by (simp add: unquote_def)

lemma example_ticket_eq:
  "example_ticket =
     concat (replicate 64 (str ''94'')) @ str ''3b9aca00'' @ str ''alice'' @ 33 # [] @ 33 # []"
  by (simp add: example_ticket_def str_def ord_def)

lemma example_new:
  "new R example_factory (str ''alice'') [] [] (Some 1000000000) None utf_8 example_store =
     (Inr example_ticket,
      example_store @ digest_objs example_factory example_store
        (spec_data0 (the_ip None) 1000000000) (map of_nat (str ''alice'' @ [0, 0])))"
proof -
  have e: "utf_8 (str ''alice'' @ 0 # join [44] [] @ 0 # []) = Inr (map of_nat (str ''alice'' @ [0, 0]))"
    by (simp add: utf_8_def str_def ord_def utf8_encode_char_def)
  have v: "(0::int) \<le> 1000000000" "(1000000000::int) < 2 ^ 32" by simp_all
  have q: "quote_each [] = Inr []" by simp
  have j: "join [44] [] = []" by simp
  show ?thesis
    unfolding example_ticket_eq
    using new_eq [where enc = utf_8, OF example_factory_ok quote_alice q quote_Nil v e, of R None]
    by (simp only: example_mac format_08x_example j)
qed

lemma example_parse:
  assumes "hash example_factory < length h"
    and "h ! hash example_factory = example_store ! hash example_factory"
  shows "parse R example_factory example_ticket h = Inr example_info"
proof -
  have ds: "hashobj_digest_size (hash example_factory) h = 64"
    using assms(2) example_digest_size by (simp add: hashobj_digest_size_def)
  have len: "length (concat (replicate 64 (str ''94''))) = hashobj_digest_size (hash example_factory) h * 2"
    by (simp add: ds str_def length_concat sum_list_replicate)
  have t8: "length (str ''3b9aca00'') = 8" "int16 R (str ''3b9aca00'') = Some 1000000000"
    using int16_format_08x [of 1000000000 R] by (simp_all add: format_08x_example) (simp add: str_def)
  have nb: "33 \<notin> set (str ''alice'')" "33 \<notin> set ([]::pystr)"
    by (simp_all add: str_def ord_def)
  have u: "unquote (str ''alice'') = str ''alice''"
    using unquote_quote [OF quote_alice] .
  show ?thesis
    unfolding example_ticket_eq
    using parse_eq [OF len t8 nb(1) nb(2) nb(2)]
    by (simp add: u unquote_Nil example_info_def)
qed

section \<open>Validation\<close>

text \<open>
  Claim C4.  For a ticket that parses and whose recomputed digest equals the parsed one,
  \<open>validate\<close> raises \<open>TicketExpired\<close> exactly when the parsed \<open>valid_until\<close> is at most
  \<open>now\<close> (the clock's reading when \<open>now\<close> is not given), and returns the parsed tuple
  otherwise.  So a ticket with \<open>valid_until = now\<close> is rejected as expired, and one with
  \<open>valid_until = now + 1\<close> passes.
\<close>

theorem validate_expiry_boundary:
  assumes "parse R f t h = Inr p"
    and "new R f (user_id p) (tokens p) (user_data p) (Some (valid_until p)) ip enc h
           = (Inr c, h1)"
    and "take (hashobj_digest_size (hash f) h1 * 2) c = digest p"
  shows "fst (validate R f t ip now enc h) =
           (if real_of_int (valid_until p) \<le> (case now of None \<Rightarrow> rt_time R | Some x \<Rightarrow> x)
            then Inl (TicketExpired t) else Inr p) \<and>
         ((fst (validate R f t ip now enc h) = Inl (TicketExpired t)) =
            (real_of_int (valid_until p) \<le> (case now of None \<Rightarrow> rt_time R | Some x \<Rightarrow> x))) \<and>
         fst (validate R f t ip (Some (real_of_int (valid_until p))) enc h)
           = Inl (TicketExpired t) \<and>
         fst (validate R f t ip (Some (real_of_int (valid_until p) - 1)) enc h) = Inr p"
  by (simp add: validate_eq [OF assms(1,2)] assms(3))

lemma example_renew:
  "new R example_factory (user_id example_info) (tokens example_info) (user_data example_info)
     (Some (valid_until example_info)) None utf_8 example_store =
     (Inr example_ticket,
      example_store @ digest_objs example_factory example_store
        (spec_data0 (the_ip None) 1000000000) (map of_nat (str ''alice'' @ [0, 0])))"
  using example_new [of R] by (simp add: example_info_def)

lemma example_digest_match:
  "take (hashobj_digest_size (hash example_factory)
          (example_store @ digest_objs example_factory example_store
             (spec_data0 (the_ip None) 1000000000) (map of_nat (str ''alice'' @ [0, 0]))) * 2)
        example_ticket = digest example_info"
  using example_hash_lt
  by (simp add: digest_size_append example_digest_size example_ticket_def example_info_def
      str_def length_concat sum_list_replicate)

text \<open>The boundary on the concrete ticket, which expires at 1000000000.\<close>

theorem validate_expiry_boundary_witness:
  "parse example_runtime example_factory example_ticket example_store = Inr example_info \<and>
   fst (validate example_runtime example_factory example_ticket None (Some 1000000000) utf_8
          example_store) = Inl (TicketExpired example_ticket) \<and>
   fst (validate example_runtime example_factory example_ticket None (Some 999999999) utf_8
          example_store) = Inr example_info"
proof -
  have p: "parse example_runtime example_factory example_ticket example_store = Inr example_info"
    using example_hash_lt by (rule example_parse) simp
  have v: "valid_until example_info = 1000000000"
    by (simp add: example_info_def)
  show ?thesis
    using validate_expiry_boundary [OF p example_renew example_digest_match, of None] p
    by (simp add: v)
qed

text \<open>A ticket that \<open>new\<close> issued, validated in the store that \<open>new\<close> left.\<close>

lemma validate_issued:
  assumes ok: "factory_ok f h"
    and qu: "quote uid = Inr qu"
    and qs: "quote_each toks = Inr qs"
    and qd: "quote ud = Inr qd"
    and v: "0 \<le> v" "v < 2 ^ 32"
    and enc: "enc (qu @ 0 # join [44] qs @ 0 # qd) = Inr data1"
  shows "\<exists>t h1 d.
      new R f uid toks ud (Some v) ip enc h = (Inr t, h1) \<and>
      length d = hashobj_digest_size (hash f) h * 2 \<and>
      t = d @ format_08x v @ qu @ 33 # join [44] qs @ 33 # qd \<and>
      factory_ok f h1 \<and>
      parse R f t h1 =
        Inr \<lparr>digest = d, user_id = uid, tokens = (if toks = [[]] then [] else toks),
             user_data = ud, valid_until = v\<rparr> \<and>
      (\<forall>now. fst (validate R f t ip now enc h1) =
        (if real_of_int v \<le> (case now of None \<Rightarrow> rt_time R | Some x \<Rightarrow> x)
         then Inl (TicketExpired t)
         else Inr \<lparr>digest = d, user_id = uid, tokens = (if toks = [[]] then [] else toks),
                   user_data = ud, valid_until = v\<rparr>))"
proof -
  let ?d0 = "spec_data0 (the_ip ip) v"
  let ?mac = "spec_mac (factory_hash_fun f h) (secret f) ?d0 data1"
  let ?t = "?mac @ format_08x v @ qu @ 33 # join [44] qs @ 33 # qd"
  let ?h1 = "h @ digest_objs f h ?d0 data1"
  have n: "new R f uid toks ud (Some v) ip enc h = (Inr ?t, ?h1)"
    by (rule new_eq [where enc = enc, OF ok qu qs qd v enc])
  have ok1: "factory_ok f ?h1"
    using ok by (rule factory_ok_append)
  have hf: "factory_hash_fun f ?h1 = factory_hash_fun f h"
    using ok by (simp add: factory_hash_fun_append factory_ok_def)
  have len: "length ?mac = hashobj_digest_size (hash f) h * 2"
    using ok by (rule length_spec_mac)
  have len1: "length ?mac = hashobj_digest_size (hash f) ?h1 * 2"
    using ok len by (simp add: digest_size_append factory_ok_def)
  have p: "parse R f ?t ?h1 =
      Inr \<lparr>digest = ?mac, user_id = uid, tokens = (if toks = [[]] then [] else toks),
           user_data = ud, valid_until = v\<rparr>"
    by (rule parse_new [OF ok1 qu qs qd v len1])
  have t1: "?t = spec_mac (factory_hash_fun f ?h1) (secret f) ?d0 data1
      @ format_08x v @ qu @ 33 # join [44] qs @ 33 # qd"
    by (simp only: hf)
  have val: "\<forall>now. fst (validate R f ?t ip now enc ?h1) =
        (if real_of_int v \<le> (case now of None \<Rightarrow> rt_time R | Some x \<Rightarrow> x)
         then Inl (TicketExpired ?t)
         else Inr \<lparr>digest = ?mac, user_id = uid, tokens = (if toks = [[]] then [] else toks),
                   user_data = ud, valid_until = v\<rparr>)"
    using validate_new [where enc = enc, OF ok1 qu qs qd v enc t1, of R]
    by (simp only: hf) simp
  show ?thesis
    using n len ok1 p val by blast
qed

text \<open>
  Claim C7.  A factory is made with the secret \<open>s3cret\<close> and a hash algorithm whose
  digests have its digest size (SHA-512 is one).  The ticket it issues for \<open>alice\<close> with
  no tokens, no user data, expiry \<open>1000000000\<close> and no client address validates at
  \<open>now = 999999999\<close>, returning \<open>alice\<close>, no tokens, empty user data and the expiry;
  at \<open>now = 1000000001\<close> validation raises \<open>TicketExpired\<close>.
\<close>

theorem scenario_alice:
  assumes "hash_ok a"
  shows "\<exists>t h1 d.
      new R (fst (init (map of_nat (str ''s3cret'')) a h)) (str ''alice'') [] []
          (Some 1000000000) None utf_8 (snd (init (map of_nat (str ''s3cret'')) a h))
        = (Inr t, h1) \<and>
      fst (validate R (fst (init (map of_nat (str ''s3cret'')) a h)) t None (Some 999999999)
             utf_8 h1)
        = Inr \<lparr>digest = d, user_id = str ''alice'', tokens = [], user_data = [],
               valid_until = 1000000000\<rparr> \<and>
      fst (validate R (fst (init (map of_nat (str ''s3cret'')) a h)) t None (Some 1000000001)
             utf_8 h1)
        = Inl (TicketExpired t)"
proof -
  let ?f = "fst (init (map of_nat (str ''s3cret'')) a h)"
  let ?h0 = "snd (init (map of_nat (str ''s3cret'')) a h)"
  have ok: "factory_ok ?f ?h0"
    using assms by (rule init_factory_ok)
  have e: "utf_8 (str ''alice'' @ 0 # join [44] [] @ 0 # []) = Inr (map of_nat (str ''alice'' @ [0, 0]))"
    by (simp add: utf_8_def str_def ord_def utf8_encode_char_def)
  have v: "(0::int) \<le> 1000000000" "(1000000000::int) < 2 ^ 32" by simp_all
  have q: "quote_each [] = Inr []" by simp
  from validate_issued [where enc = utf_8, OF ok quote_alice q quote_Nil v e, of R None]
  obtain t h1 d where
    n: "new R ?f (str ''alice'') [] [] (Some 1000000000) None utf_8 ?h0 = (Inr t, h1)"
    and val: "\<forall>now. fst (validate R ?f t None now utf_8 h1) =
        (if real_of_int 1000000000 \<le> (case now of None \<Rightarrow> rt_time R | Some x \<Rightarrow> x)
         then Inl (TicketExpired t)
         else Inr \<lparr>digest = d, user_id = str ''alice'', tokens = (if ([]::pystr list) = [[]] then [] else []),
                   user_data = [], valid_until = 1000000000\<rparr>)"
    by (elim exE conjE) (rule that)
  have 1: "fst (validate R ?f t None (Some 999999999) utf_8 h1)
        = Inr \<lparr>digest = d, user_id = str ''alice'', tokens = [], user_data = [],
               valid_until = 1000000000\<rparr>"
    using val by simp
  have 2: "fst (validate R ?f t None (Some 1000000001) utf_8 h1) = Inl (TicketExpired t)"
    using val by simp
  from n 1 2 show ?thesis by blast
qed

text \<open>The scenario with the concrete algorithm.\<close>

theorem scenario_alice_witness:
  "hash_ok example_alg \<and>
   (\<exists>t h1 d.
      new example_runtime example_factory (str ''alice'') [] [] (Some 1000000000) None utf_8
          example_store = (Inr t, h1) \<and>
      fst (validate example_runtime example_factory t None (Some 999999999) utf_8 h1)
        = Inr \<lparr>digest = d, user_id = str ''alice'', tokens = [], user_data = [],
               valid_until = 1000000000\<rparr> \<and>
      fst (validate example_runtime example_factory t None (Some 1000000001) utf_8 h1)
        = Inl (TicketExpired t))"
  using scenario_alice [OF example_alg_ok, of example_runtime "[]"] example_alg_ok
  unfolding example_factory_def example_store_def by blast

section \<open>The store\<close>

lemma validate_frame:
  assumes "hash f < length h"
  shows "\<exists>g. snd (validate R f t ip now enc h) = h @ g"
  using validate_cases [OF assms, of R t ip now enc]
  by (metis append_Nil append_Nil2 snd_conv)

lemma validate_append:
  assumes "hash f < length h"
  shows "fst (validate R f t ip now enc (h @ g)) = fst (validate R f t ip now enc h)"
  using validate_cases [OF assms, of R t ip now enc]
  by (metis append_Nil2 fst_conv)

text \<open>
  Claim C8.  A call of \<open>new\<close> or \<open>validate\<close> changes no hash object that was in the
  store, the factory's among them: it only allocates the copies it feeds.  The factory's
  secret and its reference are arguments that no method returns changed.  So whatever
  calls came before, the same call gives the same result: the result of \<open>new\<close>, \<open>parse\<close>
  and \<open>validate\<close> is the same in every store that extends the present one by other
  objects, in particular in the store that the call itself leaves.
\<close>

theorem factory_stateless:
  assumes "hash f < length h"
  shows "take (length h) (snd (new R f uid toks ud vo ip enc h)) = h \<and>
         snd (new R f uid toks ud vo ip enc h) ! hash f = h ! hash f \<and>
         take (length h) (snd (validate R f t ip now enc h)) = h \<and>
         snd (validate R f t ip now enc h) ! hash f = h ! hash f \<and>
         (\<forall>g. fst (new R f uid toks ud vo ip enc (h @ g)) = fst (new R f uid toks ud vo ip enc h)) \<and>
         (\<forall>g. parse R f t (h @ g) = parse R f t h) \<and>
         (\<forall>g. fst (validate R f t ip now enc (h @ g)) = fst (validate R f t ip now enc h)) \<and>
         fst (new R f uid toks ud vo ip enc (snd (new R f uid toks ud vo ip enc h)))
           = fst (new R f uid toks ud vo ip enc h) \<and>
         fst (validate R f t ip now enc (snd (validate R f t ip now enc h)))
           = fst (validate R f t ip now enc h)"
proof -
  obtain g1 where g1: "snd (new R f uid toks ud vo ip enc h) = h @ g1"
    using new_frame [OF assms] by blast
  obtain g2 where g2: "snd (validate R f t ip now enc h) = h @ g2"
    using validate_frame [OF assms] by blast
  have 1: "take (length h) (snd (new R f uid toks ud vo ip enc h)) = h"
    by (simp add: g1)
  have 2: "snd (new R f uid toks ud vo ip enc h) ! hash f = h ! hash f"
    using assms by (simp add: g1 nth_append)
  have 3: "take (length h) (snd (validate R f t ip now enc h)) = h"
    by (simp add: g2)
  have 4: "snd (validate R f t ip now enc h) ! hash f = h ! hash f"
    using assms by (simp add: g2 nth_append)
  have 5: "\<forall>g. fst (new R f uid toks ud vo ip enc (h @ g)) = fst (new R f uid toks ud vo ip enc h)"
    using new_append [OF assms] by blast
  have 6: "\<forall>g. parse R f t (h @ g) = parse R f t h"
    using parse_append [OF assms] by blast
  have 7: "\<forall>g. fst (validate R f t ip now enc (h @ g)) = fst (validate R f t ip now enc h)"
    using validate_append [OF assms] by blast
  have 8: "fst (new R f uid toks ud vo ip enc (snd (new R f uid toks ud vo ip enc h)))
           = fst (new R f uid toks ud vo ip enc h)"
    unfolding g1 by (rule new_append [OF assms])
  have 9: "fst (validate R f t ip now enc (snd (validate R f t ip now enc h)))
           = fst (validate R f t ip now enc h)"
    unfolding g2 by (rule validate_append [OF assms])
  from 1 2 3 4 5 6 7 8 9 show ?thesis by (intro conjI)
qed

text \<open>Two calls in a row on the concrete factory.\<close>

theorem factory_stateless_witness:
  "hash example_factory < length example_store \<and>
   take (length example_store)
     (snd (new example_runtime example_factory (str ''alice'') [] [] (Some 1000000000) None
            utf_8 example_store)) = example_store \<and>
   fst (new example_runtime example_factory (str ''alice'') [] [] (Some 1000000000) None utf_8
         (snd (new example_runtime example_factory (str ''alice'') [] [] (Some 1000000000)
                None utf_8 example_store)))
     = Inr example_ticket"
proof -
  let ?n = "new example_runtime example_factory (str ''alice'') [] [] (Some 1000000000) None
      utf_8"
  note st = factory_stateless [OF example_hash_lt, where R = example_runtime
      and uid = "str ''alice''" and toks = "[]" and ud = "[]" and vo = "Some 1000000000"
      and ip = None and enc = utf_8 and t = example_ticket and now = None]
  have a: "take (length example_store) (snd (?n example_store)) = example_store"
    using st by (rule conjunct1)
  have e: "fst (?n example_store) = Inr example_ticket"
    by (simp only: example_new fst_conv)
  have "fst (?n (snd (?n example_store))) = fst (?n example_store)"
    using st by (elim conjE)
  then have b: "fst (?n (snd (?n example_store))) = Inr example_ticket"
    by (simp only: e)
  from example_hash_lt a b show ?thesis by (intro conjI)
qed

section \<open>The empty user id\<close>

text \<open>
  Claim C9.  \<open>new\<close> accepts the empty string as \<open>user_id\<close>: the ticket it returns has an
  empty \<open>user_id\<close> field, \<open>parse\<close> reads the empty \<open>user_id\<close> back, and \<open>validate\<close> does
  not raise \<open>TicketDigestError\<close> on it (it returns the tuple, or raises \<open>TicketExpired\<close>
  when the expiry has passed).  With no tokens and no user data the ticket is the digest,
  the expiry and \<open>!!\<close>, two characters more than the minimum length; and \<open>parse\<close> accepts
  every text made of \<open>digest_size * 2\<close> characters, eight characters that \<open>int(_, 16)\<close>
  reads, and \<open>!!\<close>.
\<close>

theorem empty_user_id_accepted:
  assumes "factory_ok f h"
    and "list_all well_formed toks" "well_formed ud"
    and "0 \<le> v" "v < 2 ^ 32"
  shows "(\<exists>t h1 d qs qd.
            new R f [] toks ud (Some v) ip utf_8 h = (Inr t, h1) \<and>
            length d = hashobj_digest_size (hash f) h * 2 \<and>
            t = d @ format_08x v @ [] @ str ''!'' @ join (str '','') qs @ str ''!'' @ qd \<and>
            quote_each toks = Inr qs \<and> quote ud = Inr qd \<and>
            (toks = [] \<and> ud = [] \<longrightarrow>
               t = d @ format_08x v @ str ''!!'' \<and> length t = min_ticket_size f h1 + 2) \<and>
            parse R f t h1 =
              Inr \<lparr>digest = d, user_id = [], tokens = (if toks = [[]] then [] else toks),
                   user_data = ud, valid_until = v\<rparr> \<and>
            fst (validate R f t ip now utf_8 h1) =
              (if real_of_int v \<le> (case now of None \<Rightarrow> rt_time R | Some x \<Rightarrow> x)
               then Inl (TicketExpired t)
               else Inr \<lparr>digest = d, user_id = [], tokens = (if toks = [[]] then [] else toks),
                         user_data = ud, valid_until = v\<rparr>)) \<and>
         (\<forall>d t8 w. length d = hashobj_digest_size (hash f) h * 2 \<and> length t8 = 8 \<and>
              int16 R t8 = Some w \<longrightarrow>
            length (d @ t8) = min_ticket_size f h \<and>
            parse R f (d @ t8 @ str ''!!'') h =
              Inr \<lparr>digest = d, user_id = [], tokens = [], user_data = [], valid_until = w\<rparr>)"
proof (rule conjI)
  obtain qs where qs: "quote_each toks = Inr qs"
    using assms(2) quote_each_well_formed by (auto simp: list_all_iff)
  obtain qd where qd: "quote ud = Inr qd"
    using assms(3) quote_well_formed by blast
  let ?data1 = "map of_nat ([] @ 0 # join [44] qs @ 0 # qd) :: bytes"
  have enc: "utf_8 ([] @ 0 # join [44] qs @ 0 # qd) = Inr ?data1"
    using payload_ascii [OF quote_Nil qs qd] by (rule utf_8_ascii)
  from validate_issued [where enc = utf_8, OF assms(1) quote_Nil qs qd assms(4,5) enc, of R ip]
  obtain t h1 d where
    n: "new R f [] toks ud (Some v) ip utf_8 h = (Inr t, h1)"
    and len: "length d = hashobj_digest_size (hash f) h * 2"
    and t: "t = d @ format_08x v @ [] @ 33 # join [44] qs @ 33 # qd"
    and ok1: "factory_ok f h1"
    and p: "parse R f t h1 =
        Inr \<lparr>digest = d, user_id = [], tokens = (if toks = [[]] then [] else toks),
             user_data = ud, valid_until = v\<rparr>"
    and val: "\<forall>now. fst (validate R f t ip now utf_8 h1) =
        (if real_of_int v \<le> (case now of None \<Rightarrow> rt_time R | Some x \<Rightarrow> x)
         then Inl (TicketExpired t)
         else Inr \<lparr>digest = d, user_id = [], tokens = (if toks = [[]] then [] else toks),
                   user_data = ud, valid_until = v\<rparr>)"
    by (elim exE conjE) (rule that)
  have t': "t = d @ format_08x v @ [] @ str ''!'' @ join (str '','') qs @ str ''!'' @ qd"
    using t by (simp add: str_simps)
  have ds: "hashobj_digest_size (hash f) h1 = hashobj_digest_size (hash f) h"
    using new_frame [of f h R "[]" toks ud "Some v" ip utf_8] assms(1) n
    by (auto simp: factory_ok_def digest_size_append)
  have small: "toks = [] \<and> ud = [] \<longrightarrow>
      t = d @ format_08x v @ str ''!!'' \<and> length t = min_ticket_size f h1 + 2"
  proof
    assume e: "toks = [] \<and> ud = []"
    then have "qs = []" "qd = []" using qs qd by (auto simp: quote_Nil)
    then have "t = d @ format_08x v @ str ''!!''"
      using t by (simp add: str_def ord_def)
    then show "t = d @ format_08x v @ str ''!!'' \<and> length t = min_ticket_size f h1 + 2"
      using len format_08x_length [OF assms(4,5)]
      by (simp add: min_ticket_size_def ds str_def)
  qed
  show "\<exists>t h1 d qs qd.
            new R f [] toks ud (Some v) ip utf_8 h = (Inr t, h1) \<and>
            length d = hashobj_digest_size (hash f) h * 2 \<and>
            t = d @ format_08x v @ [] @ str ''!'' @ join (str '','') qs @ str ''!'' @ qd \<and>
            quote_each toks = Inr qs \<and> quote ud = Inr qd \<and>
            (toks = [] \<and> ud = [] \<longrightarrow>
               t = d @ format_08x v @ str ''!!'' \<and> length t = min_ticket_size f h1 + 2) \<and>
            parse R f t h1 =
              Inr \<lparr>digest = d, user_id = [], tokens = (if toks = [[]] then [] else toks),
                   user_data = ud, valid_until = v\<rparr> \<and>
            fst (validate R f t ip now utf_8 h1) =
              (if real_of_int v \<le> (case now of None \<Rightarrow> rt_time R | Some x \<Rightarrow> x)
               then Inl (TicketExpired t)
               else Inr \<lparr>digest = d, user_id = [], tokens = (if toks = [[]] then [] else toks),
                         user_data = ud, valid_until = v\<rparr>)"
    using n len t' qs qd small p val by blast
next
  show "\<forall>d t8 w. length d = hashobj_digest_size (hash f) h * 2 \<and> length t8 = 8 \<and>
              int16 R t8 = Some w \<longrightarrow>
            length (d @ t8) = min_ticket_size f h \<and>
            parse R f (d @ t8 @ str ''!!'') h =
              Inr \<lparr>digest = d, user_id = [], tokens = [], user_data = [], valid_until = w\<rparr>"
  proof (intro allI impI, elim conjE)
    fix d t8 :: pystr and w :: int
    assume d: "length d = hashobj_digest_size (hash f) h * 2"
      and t8: "length t8 = 8" "int16 R t8 = Some w"
    have nb: "33 \<notin> set ([]::pystr)" by simp
    have "d @ t8 @ str ''!!'' = d @ t8 @ [] @ 33 # [] @ 33 # []"
      by (simp add: str_def ord_def)
    then have "parse R f (d @ t8 @ str ''!!'') h =
        Inr \<lparr>digest = d, user_id = [], tokens = [], user_data = [], valid_until = w\<rparr>"
      using parse_eq [OF d t8 nb nb nb] by (simp add: unquote_Nil)
    then show "length (d @ t8) = min_ticket_size f h \<and>
            parse R f (d @ t8 @ str ''!!'') h =
              Inr \<lparr>digest = d, user_id = [], tokens = [], user_data = [], valid_until = w\<rparr>"
      using d t8(1) by (simp add: min_ticket_size_def)
  qed
qed

lemma format_08x_zero: "format_08x 0 = str ''00000000''"
  by (simp add: format_08x_def hex_nat.simps hexdig_lower_def str_def ord_def eval_nat_numeral)

lemma int16_zeros: "int16 R (str ''00000000'') = Some 0"
  using int16_format_08x [of 0 R] by (simp add: format_08x_zero)

text \<open>The empty user id on the concrete factory.\<close>

theorem empty_user_id_accepted_witness:
  "factory_ok example_factory example_store \<and>
   list_all well_formed [] \<and> well_formed [] \<and> (0::int) \<le> 1000000000 \<and>
   (1000000000::int) < 2 ^ 32 \<and>
   (\<exists>t h1 d.
      new example_runtime example_factory [] [] [] (Some 1000000000) None utf_8 example_store
        = (Inr t, h1) \<and>
      t = d @ format_08x 1000000000 @ str ''!!'' \<and>
      length t = min_ticket_size example_factory h1 + 2 \<and>
      parse example_runtime example_factory t h1 =
        Inr \<lparr>digest = d, user_id = [], tokens = [], user_data = [],
             valid_until = 1000000000\<rparr> \<and>
      fst (validate example_runtime example_factory t None (Some 5) utf_8 h1) =
        Inr \<lparr>digest = d, user_id = [], tokens = [], user_data = [],
             valid_until = 1000000000\<rparr>) \<and>
   length (replicate 128 (ord CHR ''a''))
     = hashobj_digest_size (hash example_factory) example_store * 2 \<and>
   length (str ''00000000'') = 8 \<and> int16 example_runtime (str ''00000000'') = Some 0 \<and>
   parse example_runtime example_factory
       (replicate 128 (ord CHR ''a'') @ str ''00000000'' @ str ''!!'') example_store =
     Inr \<lparr>digest = replicate 128 (ord CHR ''a''), user_id = [], tokens = [], user_data = [],
          valid_until = 0\<rparr>"
proof -
  have wf: "list_all well_formed []" "well_formed []"
    by (simp_all add: well_formed_def)
  have v: "(0::int) \<le> 1000000000" "(1000000000::int) < 2 ^ 32" by simp_all
  note th = empty_user_id_accepted [OF example_factory_ok wf v, where R = example_runtime
      and ip = None and now = "Some 5"]
  from th [THEN conjunct1]
  obtain t h1 d where
    n: "new example_runtime example_factory [] [] [] (Some 1000000000) None utf_8 example_store
        = (Inr t, h1)"
    and s: "([]::pystr list) = [] \<and> ([]::pystr) = [] \<longrightarrow>
        t = d @ format_08x 1000000000 @ str ''!!'' \<and>
        length t = min_ticket_size example_factory h1 + 2"
    and p: "parse example_runtime example_factory t h1 =
        Inr \<lparr>digest = d, user_id = [], tokens = (if ([]::pystr list) = [[]] then [] else []),
             user_data = [], valid_until = 1000000000\<rparr>"
    and val: "fst (validate example_runtime example_factory t None (Some 5) utf_8 h1) =
        (if real_of_int 1000000000 \<le> (case Some 5 of None \<Rightarrow> rt_time example_runtime | Some x \<Rightarrow> x)
         then Inl (TicketExpired t)
         else Inr \<lparr>digest = d, user_id = [], tokens = (if ([]::pystr list) = [[]] then [] else []),
                   user_data = [], valid_until = 1000000000\<rparr>)"
    by (elim exE conjE) (rule that)
  have A: "\<exists>t h1 d.
      new example_runtime example_factory [] [] [] (Some 1000000000) None utf_8 example_store
        = (Inr t, h1) \<and>
      t = d @ format_08x 1000000000 @ str ''!!'' \<and>
      length t = min_ticket_size example_factory h1 + 2 \<and>
      parse example_runtime example_factory t h1 =
        Inr \<lparr>digest = d, user_id = [], tokens = [], user_data = [],
             valid_until = 1000000000\<rparr> \<and>
      fst (validate example_runtime example_factory t None (Some 5) utf_8 h1) =
        Inr \<lparr>digest = d, user_id = [], tokens = [], user_data = [],
             valid_until = 1000000000\<rparr>"
  proof -
    have s': "t = d @ format_08x 1000000000 @ str ''!!''"
        "length t = min_ticket_size example_factory h1 + 2"
      using s by blast+
    have p': "parse example_runtime example_factory t h1 =
        Inr \<lparr>digest = d, user_id = [], tokens = [], user_data = [],
             valid_until = 1000000000\<rparr>"
      using p by simp
    have val': "fst (validate example_runtime example_factory t None (Some 5) utf_8 h1) =
        Inr \<lparr>digest = d, user_id = [], tokens = [], user_data = [],
             valid_until = 1000000000\<rparr>"
      using val by simp
    from n s' p' val' show ?thesis by blast
  qed
  have l: "length (replicate 128 (ord CHR ''a''))
     = hashobj_digest_size (hash example_factory) example_store * 2"
    by (simp add: example_digest_size)
  have l8: "length (str ''00000000'') = 8" by (simp add: str_def)
  have B: "parse example_runtime example_factory
       (replicate 128 (ord CHR ''a'') @ str ''00000000'' @ str ''!!'') example_store =
     Inr \<lparr>digest = replicate 128 (ord CHR ''a''), user_id = [], tokens = [], user_data = [],
          valid_until = 0\<rparr>"
    using th [THEN conjunct2, rule_format, of "replicate 128 (ord CHR ''a'')" "str ''00000000''" 0]
      l l8 int16_zeros [of example_runtime]
    by blast
  from example_factory_ok wf v A l l8 int16_zeros [of example_runtime] B
  show ?thesis by (intro conjI)
qed

section \<open>The range of the expiry\<close>

lemma new_None:
  "new R f uid toks ud None ip enc h =
   new R f uid toks ud (Some (int_of_time (rt_time R) + DEFAULT_TIMEOUT)) ip enc h"
  by (simp add: new_def)

lemma new_struct_error:
  assumes qu: "quote uid = Inr qu"
    and qs: "quote_each toks = Inr qs"
    and qd: "quote ud = Inr qd"
    and v: "v < 0 \<or> 2 ^ 32 \<le> v"
  shows "new R f uid toks ud (Some v) ip enc h = (Inl StructError, h)"
proof -
  have ts: "(if toks \<noteq> [] then (case quote_each toks of Inl e \<Rightarrow> Inl e
                | Inr qs \<Rightarrow> Inr (join [44] qs)) else Inr []) = Inr (join [44] qs)"
    using qs by (cases toks) simp_all
  have us: "(if ud = [] then Inr [] else quote ud) = Inr qd"
    using qd by (auto simp: quote_Nil)
  have pk: "pack_I v = Inl StructError"
    using v by (auto simp: pack_I_def)
  show ?thesis
    unfolding new_def Let_def str_simps
    by (simp only: qu ts us pk sum.case option.case)
qed

lemma new_ticket_time:
  assumes ok: "factory_ok f h"
    and n: "new R f uid toks ud (Some u) ip enc h = (Inr t, h1)"
  shows "0 \<le> u \<and> u < 2 ^ 32 \<and>
         take 8 (drop (hashobj_digest_size (hash f) h * 2) t) = format_08x u"
proof -
  from new_Inr [OF n] obtain qu qs qd data1 where
    q: "quote uid = Inr qu" "quote_each toks = Inr qs" "quote ud = Inr qd"
    and pk: "pack_I u = Inr (big_endian 4 (nat u))"
    and e: "enc (qu @ 0 # join [44] qs @ 0 # qd) = Inr data1"
    by auto
  have v: "0 \<le> u" "u < 2 ^ 32"
    using pk by (simp_all add: pack_I_range)
  let ?mac = "spec_mac (factory_hash_fun f h) (secret f) (spec_data0 (the_ip ip) u) data1"
  have "t = ?mac @ format_08x u @ qu @ 33 # join [44] qs @ 33 # qd"
    using new_eq [where enc = enc, OF ok q v e, of R ip] n by simp
  moreover have "length ?mac = hashobj_digest_size (hash f) h * 2"
    using ok by (rule length_spec_mac)
  ultimately show ?thesis
    using v format_08x_length [OF v] by simp
qed

text \<open>
  Claim C10.  With \<open>valid_until\<close> below 0 or from \<open>2 ^ 32\<close> on, \<open>pack\<close> raises
  \<open>struct.error\<close> and \<open>new\<close> returns no ticket: it raises, and what it raises is that
  \<open>struct.error\<close> whenever the fields before it could be quoted.  With \<open>valid_until\<close> in
  the range, \<open>pack\<close> returns its four big-endian bytes.  And every ticket that \<open>new\<close>
  returns, with the expiry given or taken from the clock, carries an expiry in the
  range, written in the eight hexadecimal digits after the digest.
\<close>

theorem new_valid_until_range:
  "(v < 0 \<or> 2 ^ 32 \<le> v \<longrightarrow>
      pack_I v = Inl StructError \<and>
      (\<exists>e. fst (new R f uid toks ud (Some v) ip enc h) = Inl e) \<and>
      (quote uid = Inr qu \<and> quote_each toks = Inr qs \<and> quote ud = Inr qd \<longrightarrow>
         new R f uid toks ud (Some v) ip enc h = (Inl StructError, h))) \<and>
   (0 \<le> v \<and> v < 2 ^ 32 \<longrightarrow>
      pack_I v = Inr (big_endian 4 (nat v)) \<and> length (big_endian 4 (nat v)) = 4 \<and>
      from_big_endian (big_endian 4 (nat v)) = nat v) \<and>
   (factory_ok f h \<and> new R f uid toks ud vo ip enc h = (Inr t, h1) \<longrightarrow>
      (let u = (case vo of None \<Rightarrow> int_of_time (rt_time R) + DEFAULT_TIMEOUT | Some w \<Rightarrow> w)
       in 0 \<le> u \<and> u < 2 ^ 32 \<and>
          take 8 (drop (hashobj_digest_size (hash f) h * 2) t) = format_08x u \<and>
          length (format_08x u) = 8 \<and> list_all is_lower_hexdig (format_08x u) \<and>
          int16 R (format_08x u) = Some u))"
proof (intro conjI impI)
  assume v: "v < 0 \<or> 2 ^ 32 \<le> v"
  show pk: "pack_I v = Inl StructError"
    using v by (auto simp: pack_I_def)
  show "\<exists>e. fst (new R f uid toks ud (Some v) ip enc h) = Inl e"
  proof (cases "fst (new R f uid toks ud (Some v) ip enc h)")
    case (Inl e)
    then show ?thesis by blast
  next
    case (Inr t')
    then have "new R f uid toks ud (Some v) ip enc h
        = (Inr t', snd (new R f uid toks ud (Some v) ip enc h))"
      by (simp add: prod_eq_iff)
    from new_Inr [OF this] have "pack_I v = Inr (big_endian 4 (nat v))" by auto
    with pk show ?thesis by simp
  qed
next
  assume "v < 0 \<or> 2 ^ 32 \<le> v"
    and "quote uid = Inr qu \<and> quote_each toks = Inr qs \<and> quote ud = Inr qd"
  then show "new R f uid toks ud (Some v) ip enc h = (Inl StructError, h)"
    using new_struct_error [of uid qu toks qs ud qd v R f ip enc h] by blast
next
  assume v: "0 \<le> v \<and> v < 2 ^ 32"
  show "pack_I v = Inr (big_endian 4 (nat v))"
    using v by (simp add: pack_I_def)
  show "length (big_endian 4 (nat v)) = 4"
    by (rule big_endian_length)
  have "nat v < 256 ^ 4" using v by auto
  then show "from_big_endian (big_endian 4 (nat v)) = nat v"
    by (rule from_big_endian_big_endian)
next
  assume a: "factory_ok f h \<and> new R f uid toks ud vo ip enc h = (Inr t, h1)"
  define u where "u = (case vo of None \<Rightarrow> int_of_time (rt_time R) + DEFAULT_TIMEOUT | Some w \<Rightarrow> w)"
  have n: "new R f uid toks ud (Some u) ip enc h = (Inr t, h1)"
    using a unfolding u_def by (cases vo) (simp_all add: new_None)
  have r: "0 \<le> u" "u < 2 ^ 32"
      "take 8 (drop (hashobj_digest_size (hash f) h * 2) t) = format_08x u"
    using new_ticket_time [OF _ n] a by simp_all
  have "length (format_08x u) = 8" "list_all is_lower_hexdig (format_08x u)"
      "int16 R (format_08x u) = Some u"
    using r(1,2) by (simp_all add: format_08x_length list_all_iff format_08x_lower int16_format_08x)
  with r show "let u = (case vo of None \<Rightarrow> int_of_time (rt_time R) + DEFAULT_TIMEOUT | Some w \<Rightarrow> w)
       in 0 \<le> u \<and> u < 2 ^ 32 \<and>
          take 8 (drop (hashobj_digest_size (hash f) h * 2) t) = format_08x u \<and>
          length (format_08x u) = 8 \<and> list_all is_lower_hexdig (format_08x u) \<and>
          int16 R (format_08x u) = Some u"
    unfolding u_def [symmetric] Let_def by blast
qed

text \<open>The range on the concrete factory: expiry \<open>-1\<close> raises, expiry \<open>1000000000\<close> is written.\<close>

theorem new_valid_until_range_witness:
  "((-1::int) < 0 \<or> (2::int) ^ 32 \<le> -1) \<and>
   quote (str ''alice'') = Inr (str ''alice'') \<and> quote_each [] = Inr [] \<and> quote [] = Inr [] \<and>
   new example_runtime example_factory (str ''alice'') [] [] (Some (-1)) None utf_8 example_store
     = (Inl StructError, example_store) \<and>
   (0::int) \<le> 1000000000 \<and> (1000000000::int) < 2 ^ 32 \<and>
   pack_I 1000000000 = Inr (big_endian 4 (nat 1000000000)) \<and>
   factory_ok example_factory example_store \<and>
   take 8 (drop (hashobj_digest_size (hash example_factory) example_store * 2) example_ticket)
     = format_08x 1000000000"
proof -
  have o: "(-1::int) < 0 \<or> (2::int) ^ 32 \<le> -1" by simp
  have q: "quote (str ''alice'') = Inr (str ''alice'') \<and> quote_each [] = Inr [] \<and> quote [] = Inr []"
    by (simp add: quote_alice quote_Nil)
  note th1 = new_valid_until_range [where v = "-1" and R = example_runtime and f = example_factory
      and uid = "str ''alice''" and toks = "[]" and ud = "[]" and ip = None and enc = utf_8
      and h = example_store and qu = "str ''alice''" and qs = "[]" and qd = "[]"
      and vo = "Some 1000000000" and t = example_ticket
      and ?h1.0 = "example_store @ digest_objs example_factory example_store
        (spec_data0 (the_ip None) 1000000000) (map of_nat (str ''alice'' @ [0, 0]))"]
  have a: "new example_runtime example_factory (str ''alice'') [] [] (Some (-1)) None utf_8
      example_store = (Inl StructError, example_store)"
    using th1 [THEN conjunct1, rule_format, OF o, THEN conjunct2, THEN conjunct2, rule_format, OF q] .
  have i: "(0::int) \<le> 1000000000 \<and> (1000000000::int) < 2 ^ 32" by simp
  note th2 = new_valid_until_range [where v = 1000000000]
  have b: "pack_I 1000000000 = Inr (big_endian 4 (nat 1000000000))"
    using th2 [THEN conjunct2, THEN conjunct1, rule_format, OF i, THEN conjunct1] .
  have n: "factory_ok example_factory example_store \<and>
      new example_runtime example_factory (str ''alice'') [] [] (Some 1000000000) None utf_8
        example_store = (Inr example_ticket, example_store @ digest_objs example_factory example_store
        (spec_data0 (the_ip None) 1000000000) (map of_nat (str ''alice'' @ [0, 0])))"
    using example_factory_ok example_new [of example_runtime] by simp
  have c: "take 8 (drop (hashobj_digest_size (hash example_factory) example_store * 2) example_ticket)
     = format_08x 1000000000"
    using th1 [THEN conjunct2, THEN conjunct2, rule_format, OF n] by (simp add: Let_def)
  from o q a i b example_factory_ok c show ?thesis by blast
qed

section \<open>A time field with a sign\<close>

lemma int16_minus_one: "int16 R (str ''-0000001'') = Some (- 1)"
  by (simp add: int16_def to_ascii_def str_def ord_def py_isspace_def strip_sign_def
      strip_prefix16_def digit_value_def digits_value_def)

lemma quote_a: "quote (str ''a'') = Inr (str ''a'')"
  by (simp add: quote_def str_def ord_def utf8_encode_char_def quote_from_bytes_def
      quote_byte_def always_safe_def)

lemma parse_negative:
  assumes "length d = hashobj_digest_size (hash f) h * 2"
  shows "parse R f (d @ str ''-0000001a!!'') h =
     Inr \<lparr>digest = d, user_id = str ''a'', tokens = [], user_data = [], valid_until = - 1\<rparr>"
proof -
  have l8: "length (str ''-0000001'') = 8" by (simp add: str_def)
  have nb: "33 \<notin> set (str ''a'')" "33 \<notin> set ([]::pystr)"
    by (simp_all add: str_def ord_def)
  have u: "unquote (str ''a'') = str ''a''"
    using unquote_quote [OF quote_a] .
  have "d @ str ''-0000001a!!'' = d @ str ''-0000001'' @ str ''a'' @ 33 # [] @ 33 # []"
    by (simp add: str_def ord_def)
  then show ?thesis
    using parse_eq [OF assms l8 int16_minus_one nb(1) nb(2) nb(2)]
    by (simp add: u unquote_Nil)
qed

lemma validate_negative:
  assumes "length d = hashobj_digest_size (hash f) h * 2"
  shows "validate R f (d @ str ''-0000001a!!'') ip now enc h = (Inl StructError, h)"
proof -
  have q: "quote_each [] = Inr []" by simp
  have "new R f (str ''a'') [] [] (Some (- 1)) ip enc h = (Inl StructError, h)"
    using new_struct_error [OF quote_a q quote_Nil, of "- 1"] by simp
  then show ?thesis
    by (simp add: validate_def parse_negative [OF assms])
qed

text \<open>
  Claim C5 fails on the code.  A ticket whose eight characters after the digest are
  \<open>-0000001\<close> is not rejected for its time field: \<open>int(_, 16)\<close> reads a sign, and
  \<open>parse\<close> returns the tuple with \<open>valid_until = -1\<close>.
\<close>

theorem parse_accepts_negative_time:
  assumes "length d = hashobj_digest_size (hash f) h * 2"
  shows "parse R f (d @ str ''-0000001a!!'') h =
     Inr \<lparr>digest = d, user_id = str ''a'', tokens = [], user_data = [], valid_until = - 1\<rparr>"
  using assms by (rule parse_negative)

text \<open>The ticket of 128 letters \<open>a\<close>, \<open>-0000001\<close> and \<open>a!!\<close> on the concrete factory.\<close>

theorem parse_accepts_negative_time_witness:
  "length (replicate 128 (ord CHR ''a''))
     = hashobj_digest_size (hash example_factory) example_store * 2 \<and>
   parse example_runtime example_factory (replicate 128 (ord CHR ''a'') @ str ''-0000001a!!'')
       example_store =
     Inr \<lparr>digest = replicate 128 (ord CHR ''a''), user_id = str ''a'', tokens = [],
          user_data = [], valid_until = - 1\<rparr>"
proof -
  have l: "length (replicate 128 (ord CHR ''a''))
     = hashobj_digest_size (hash example_factory) example_store * 2"
    by (simp add: example_digest_size)
  from l parse_accepts_negative_time [OF l, of example_runtime] show ?thesis ..
qed

text \<open>
  Claim C3 fails on the code.  On a ticket whose eight characters after the digest are
  \<open>-0000001\<close>, \<open>validate\<close> parses, and the recomputation raises \<open>struct.error\<close> for
  the negative expiry: no digest is compared, and neither \<open>TicketDigestError\<close> nor
  \<open>TicketExpired\<close> is raised, whatever the digest and whatever \<open>now\<close> is.
\<close>

theorem validate_negative_time_struct_error:
  assumes "length d = hashobj_digest_size (hash f) h * 2"
  shows "validate R f (d @ str ''-0000001a!!'') ip now enc h = (Inl StructError, h)"
  using assms by (rule validate_negative)

text \<open>The same ticket validated on the concrete factory.\<close>

theorem validate_negative_time_struct_error_witness:
  "length (replicate 128 (ord CHR ''a''))
     = hashobj_digest_size (hash example_factory) example_store * 2 \<and>
   validate example_runtime example_factory (replicate 128 (ord CHR ''a'') @ str ''-0000001a!!'')
       None None utf_8 example_store = (Inl StructError, example_store)"
proof -
  have l: "length (replicate 128 (ord CHR ''a''))
     = hashobj_digest_size (hash example_factory) example_store * 2"
    by (simp add: example_digest_size)
  from l validate_negative_time_struct_error [OF l, of example_runtime None None utf_8]
  show ?thesis ..
qed

text \<open>
  Where the recomputation returns a ticket, the digest is compared before the expiry: a
  digest that differs raises \<open>TicketDigestError\<close> whatever \<open>now\<close> is, and a parse error is
  passed on.
\<close>

lemma validate_digest_first:
  assumes "parse R f t h = Inr p"
    and "new R f (user_id p) (tokens p) (user_data p) (Some (valid_until p)) ip enc h
           = (Inr c, h1)"
    and "take (hashobj_digest_size (hash f) h1 * 2) c \<noteq> digest p"
  shows "validate R f t ip now enc h = (Inl (TicketDigestError t), h1)"
  by (simp add: validate_eq [OF assms(1,2)] assms(3))

lemma validate_parse_error:
  "parse R f t h = Inl e \<Longrightarrow> validate R f t ip now enc h = (Inl e, h)"
  by (simp add: validate_def)

text \<open>
  When \<open>parse\<close> raises: the text is too short, \<open>int(_, 16)\<close> rejects the eight characters
  after the digest, or the rest does not split at \<open>!\<close> into three fields.  It raises
  nothing but \<open>TicketParseError\<close>.
\<close>

lemma parse_raises_iff:
  "(\<exists>e. parse R f t h = Inl e) \<longleftrightarrow>
     length t < hashobj_digest_size (hash f) h * 2 + 8 \<or>
     int16 R (take 8 (drop (hashobj_digest_size (hash f) h * 2) t)) = None \<or>
     length (split (ord CHR ''!'') (drop (hashobj_digest_size (hash f) h * 2 + 8) t)) \<noteq> 3"
  by (auto simp: parse_def min_ticket_size_def Let_def split: option.splits)

lemma parse_raises_parse_error:
  "parse R f t h = Inl e \<Longrightarrow> \<exists>msg. e = TicketParseError t msg"
  by (auto simp: parse_def Let_def split: option.splits if_splits)

end
